theory Spec2Isabelle
  imports Complex_Main "HOL-Library.Sublist"
begin

section \<open>Numbers and strings as the Python code uses them\<close>

text \<open>
  Python floats are modelled as exact real numbers. \<open>round(x, n)\<close> rounds the value to
  \<open>n\<close> decimals, a tie going to the even neighbour.
\<close>

definition round_half_even :: "real \<Rightarrow> int" where
  "round_half_even x =
     (let f = \<lfloor>x\<rfloor>; d = x - of_int f
      in if d < 1 / 2 then f
         else if 1 / 2 < d then f + 1
         else if even f then f else f + 1)"

definition py_round :: "real \<Rightarrow> nat \<Rightarrow> real" where
  "py_round x ndigits = of_int (round_half_even (x * 10 ^ ndigits)) / 10 ^ ndigits"

text \<open>
  Where the code divides or multiplies floats, the result is the double nearest to the
  exact value, a tie going to the even mantissa. \<open>to_double\<close> is that rounding for
  values in the normal range of doubles: 53 bits are kept, counted from the leading
  one, whose place \<open>binary_exponent\<close> finds. \<open>bit_length\<close> is \<open>int.bit_length()\<close>.
\<close>

fun bit_length :: "nat \<Rightarrow> nat" where
  "bit_length n = (if n = 0 then 0 else Suc (bit_length (n div 2)))"

declare bit_length.simps [simp del]

definition binary_exponent :: "real \<Rightarrow> int" where
  "binary_exponent x =
     (if 1 \<le> x then int (bit_length (nat \<lfloor>x\<rfloor>)) - 1
      else - int (bit_length (nat (\<lceil>1 / x\<rceil> - 1))))"

definition to_double :: "real \<Rightarrow> real" where
  "to_double x =
     (if x = 0 then 0
      else
        (let e = binary_exponent \<bar>x\<bar>;
             m = round_half_even (\<bar>x\<bar> * 2 powi (52 - e))
         in sgn x * of_int m * 2 powi (e - 52)))"

text \<open>\<open>str(n)\<close> for an integer: its decimal digits, with a minus sign when negative.\<close>

definition digit_char :: "nat \<Rightarrow> char" where
  "digit_char d = ''0123456789'' ! d"

fun show_nat :: "nat \<Rightarrow> string" where
  "show_nat n = (if n < 10 then [digit_char n] else show_nat (n div 10) @ [digit_char (n mod 10)])"

declare show_nat.simps [simp del]

definition show_int :: "int \<Rightarrow> string" where
  "show_int i = (if i < 0 then CHR ''-'' # show_nat (nat (- i)) else show_nat (nat i))"

text \<open>The format \<open>f"{x:.1f}"\<close>: one decimal, the sign of \<open>x\<close> kept.\<close>

definition format_1f :: "real \<Rightarrow> string" where
  "format_1f x =
     (let n = nat (round_half_even (\<bar>x\<bar> * 10))
      in (if x < 0 then ''-'' else []) @ show_nat (n div 10) @ ''.'' @ [digit_char (n mod 10)])"

text \<open>
  Strings are lists of characters with the codes 0 to 255 (Latin-1). \<open>str.lower()\<close>
  maps the capital letters to the small ones, those of Latin-1 (\<open>U+00C0\<close> to \<open>U+00DE\<close>
  without the multiplication sign) included; \<open>str.strip()\<close> drops the white space at
  both ends, which in this range is the ten ASCII characters, \<open>U+0085\<close> and \<open>U+00A0\<close>.
\<close>

definition lower_char :: "char \<Rightarrow> char" where
  "lower_char c =
     (case map_of
             (zip (''ABCDEFGHIJKLMNOPQRSTUVWXYZ''
                   @ [CHR 0xC0, CHR 0xC1, CHR 0xC2, CHR 0xC3, CHR 0xC4, CHR 0xC5, CHR 0xC6, CHR 0xC7,
                      CHR 0xC8, CHR 0xC9, CHR 0xCA, CHR 0xCB, CHR 0xCC, CHR 0xCD, CHR 0xCE, CHR 0xCF,
                      CHR 0xD0, CHR 0xD1, CHR 0xD2, CHR 0xD3, CHR 0xD4, CHR 0xD5, CHR 0xD6,
                      CHR 0xD8, CHR 0xD9, CHR 0xDA, CHR 0xDB, CHR 0xDC, CHR 0xDD, CHR 0xDE])
                  (''abcdefghijklmnopqrstuvwxyz''
                   @ [CHR 0xE0, CHR 0xE1, CHR 0xE2, CHR 0xE3, CHR 0xE4, CHR 0xE5, CHR 0xE6, CHR 0xE7,
                      CHR 0xE8, CHR 0xE9, CHR 0xEA, CHR 0xEB, CHR 0xEC, CHR 0xED, CHR 0xEE, CHR 0xEF,
                      CHR 0xF0, CHR 0xF1, CHR 0xF2, CHR 0xF3, CHR 0xF4, CHR 0xF5, CHR 0xF6,
                      CHR 0xF8, CHR 0xF9, CHR 0xFA, CHR 0xFB, CHR 0xFC, CHR 0xFD, CHR 0xFE]))
             c of
        Some d \<Rightarrow> d
      | None \<Rightarrow> c)"

definition lower :: "string \<Rightarrow> string" where
  "lower s = map lower_char s"

definition is_space :: "char \<Rightarrow> bool" where
  "is_space c = (c \<in> set [CHR '' '', CHR 0x09, CHR 0x0A, CHR 0x0B, CHR 0x0C, CHR 0x0D,
                            CHR 0x1C, CHR 0x1D, CHR 0x1E, CHR 0x1F, CHR 0x85, CHR 0xA0])"

definition strip :: "string \<Rightarrow> string" where
  "strip s = rev (dropWhile is_space (rev (dropWhile is_space s)))"

text \<open>\<open>needle in haystack\<close> on strings.\<close>

fun is_substring :: "string \<Rightarrow> string \<Rightarrow> bool" where
  "is_substring xs [] = (xs = [])"
| "is_substring xs (y # ys) = (prefix xs (y # ys) \<or> is_substring xs ys)"

text \<open>\<open>"\n".join(lines)\<close>.\<close>

fun join_lines :: "string list \<Rightarrow> string" where
  "join_lines [] = []"
| "join_lines [l] = l"
| "join_lines (l # m # ls) = l @ [CHR 0x0A] @ join_lines (m # ls)"

section \<open>The sampler: \<open>DataFetcher\<close>\<close>

text \<open>
  One entry of the process list handed to the user interface
  (the dictionary built at the end of the per-process block of \<open>DataFetcher.run\<close>).
\<close>

record process_record =
  pid :: int
  name :: string
  username :: string
  cpu_percent :: real
  memory_mb :: real
  memory_percent :: real
  disk_io_mb :: real

record mem_info =
  mi_total :: real
  mi_used :: real
  mi_available :: real
  mi_percent :: real

text \<open>
  What the operating system answers for one process during one cycle. \<open>as_dict\<close> either
  raises, or gives name, memory information and user name, each of which may be
  missing (\<open>None\<close>). \<open>cpu_percent(interval=None)\<close> and \<open>io_counters()\<close> answer or
  raise. Each call has a last answer for an exception that no handler around it names
  (\<open>RuntimeError\<close>, \<open>OSError\<close>, ...); the value of \<open>cpu_percent\<close> is the double it returns.
\<close>

datatype info_result =
    Info "string option" "nat option" "string option"
  | InfoNoSuchProcess
  | InfoAccessDenied
  | InfoZombieProcess
  | InfoOtherException

datatype cpu_result = CpuPercent real | CpuAccessDenied | CpuNoSuchProcess | CpuOtherException

datatype io_result =
    IoCounters nat nat
  | IoAccessDenied
  | IoNoSuchProcess
  | IoAttributeError
  | IoOtherException

record os_process =
  os_pid :: int
  os_info :: info_result
  os_cpu :: cpu_result
  os_io :: io_result

record virtual_memory =
  vm_total :: nat
  vm_used :: nat
  vm_available :: nat
  vm_percent :: real

text \<open>The fields of \<open>DataFetcher\<close> that \<open>run\<close> reads and writes.\<close>

record data_fetcher =
  process_cache :: "int \<rightharpoonup> real"
  total_memory :: nat
  cpu_sample_rate :: nat
  cpu_sample_counter :: nat
  cpu_initialized :: bool
  disk_io_threshold_mb :: real

definition data_fetcher_init :: "nat \<Rightarrow> data_fetcher" where
  "data_fetcher_init vm_total_at_start =
     \<lparr> process_cache = Map.empty,
       total_memory = vm_total_at_start,
       cpu_sample_rate = 4,
       cpu_sample_counter = 0,
       cpu_initialized = False,
       disk_io_threshold_mb = 50 \<rparr>"

text \<open>
  The exceptions that leave the per-process block without being caught there; the
  handler around the whole cycle catches them, and the cycle emits nothing.
\<close>

datatype cycle_error = AttributeError | ZeroDivisionError | UncaughtException

datatype process_outcome = Appended process_record | Skipped | Raised cycle_error

text \<open>
  The CPU part of the per-process block: the value reported, or the exception that
  leaves the block, and the cache after it.
\<close>

definition sample_cpu ::
  "bool \<Rightarrow> bool \<Rightarrow> (int \<rightharpoonup> real) \<Rightarrow> os_process \<Rightarrow>
     (cycle_error + real) \<times> (int \<rightharpoonup> real)" where
  "sample_cpu do_cpu_sample initialized cache p =
     (if do_cpu_sample then
        (if \<not> initialized then
           (case os_cpu p of
              CpuPercent v \<Rightarrow> (Inr 0, cache(os_pid p \<mapsto> 0))
            | CpuAccessDenied \<Rightarrow> (Inr 0, cache)
            | CpuNoSuchProcess \<Rightarrow> (Inr 0, cache)
            | CpuOtherException \<Rightarrow> (Inl UncaughtException, cache))
         else
           (case os_cpu p of
              CpuPercent v \<Rightarrow> (Inr v, cache(os_pid p \<mapsto> v))
            | CpuAccessDenied \<Rightarrow> (Inr 0, cache)
            | CpuNoSuchProcess \<Rightarrow> (Inr 0, cache)
            | CpuOtherException \<Rightarrow> (Inl UncaughtException, cache)))
      else
        (Inr (case cache (os_pid p) of Some v \<Rightarrow> v | None \<Rightarrow> 0), cache))"

text \<open>
  The disk part: measured above the threshold only, one of the three exceptions named
  by the handler leaving 0.0. Dividing the byte count by \<open>2 ^ 20\<close> is exact in doubles.
\<close>

definition sample_disk :: "real \<Rightarrow> real \<Rightarrow> os_process \<Rightarrow> cycle_error + real" where
  "sample_disk threshold mb p =
     (if threshold < mb then
        (case os_io p of
           IoCounters read_bytes write_bytes \<Rightarrow>
             Inr (py_round (of_nat (read_bytes + write_bytes) / 1048576) 1)
         | IoAccessDenied \<Rightarrow> Inr 0
         | IoNoSuchProcess \<Rightarrow> Inr 0
         | IoAttributeError \<Rightarrow> Inr 0
         | IoOtherException \<Rightarrow> Inl UncaughtException)
      else Inr 0)"

text \<open>\<open>username.rpartition('\\')[2]\<close> when the name holds a backslash.\<close>

definition strip_domain :: "string \<Rightarrow> string" where
  "strip_domain u =
     (if CHR 0x5C \<in> set u then rev (takeWhile (\<lambda>c. c \<noteq> CHR 0x5C) (rev u)) else u)"

definition username_or_unknown :: "string option \<Rightarrow> string" where
  "username_or_unknown u = (case u of None \<Rightarrow> ''unknown'' | Some s \<Rightarrow> if s = [] then ''unknown'' else s)"

definition name_or_empty :: "string option \<Rightarrow> string" where
  "name_or_empty n = (case n of None \<Rightarrow> [] | Some s \<Rightarrow> s)"

text \<open>
  The double that \<open>rss / self.total_memory * 100\<close> evaluates to: a division and a
  multiplication, each rounded.
\<close>

definition percent_of :: "nat \<Rightarrow> nat \<Rightarrow> real" where
  "percent_of rss_bytes total_bytes =
     to_double (to_double (of_nat rss_bytes / of_nat total_bytes) * 100)"

text \<open>
  The per-process block of \<open>run\<close>. The order of the source is kept: the resident size is
  read first (a missing \<open>memory_info\<close> raises \<open>AttributeError\<close>), then CPU, then disk, and the
  record is built last, where dividing by a total memory of 0 raises. Dividing \<open>rss\<close> by
  \<open>2 ^ 20\<close> is exact in doubles.
\<close>

definition sample_process ::
  "data_fetcher \<Rightarrow> bool \<Rightarrow> (int \<rightharpoonup> real) \<Rightarrow> os_process \<Rightarrow> process_outcome \<times> (int \<rightharpoonup> real)" where
  "sample_process s do_cpu_sample cache p =
     (case os_info p of
        InfoNoSuchProcess \<Rightarrow> (Skipped, cache)
      | InfoAccessDenied \<Rightarrow> (Skipped, cache)
      | InfoZombieProcess \<Rightarrow> (Skipped, cache)
      | InfoOtherException \<Rightarrow> (Raised UncaughtException, cache)
      | Info nm mem usr \<Rightarrow>
          (case mem of
             None \<Rightarrow> (Raised AttributeError, cache)
           | Some rss \<Rightarrow>
               (let mb = py_round (of_nat rss / 1048576) 1;
                    (cpu_result, cache') = sample_cpu do_cpu_sample (cpu_initialized s) cache p
                in case cpu_result of
                     Inl e \<Rightarrow> (Raised e, cache')
                   | Inr cpu \<Rightarrow>
                       (case sample_disk (disk_io_threshold_mb s) mb p of
                          Inl e \<Rightarrow> (Raised e, cache')
                        | Inr disk_mb \<Rightarrow>
                            (let user = strip_domain (username_or_unknown usr)
                             in if total_memory s = 0 then (Raised ZeroDivisionError, cache')
                                else
                                  (Appended
                                     \<lparr> pid = os_pid p,
                                       name = take 30 (name_or_empty nm),
                                       username = take 15 user,
                                       cpu_percent = py_round cpu 1,
                                       memory_mb = mb,
                                       memory_percent =
                                         py_round (percent_of rss (total_memory s)) 1,
                                       disk_io_mb = disk_mb \<rparr>,
                                   cache'))))))"

text \<open>The loop over \<open>psutil.process_iter\<close>: records are appended until one block raises.\<close>

fun sample_processes ::
  "data_fetcher \<Rightarrow> bool \<Rightarrow> os_process list \<Rightarrow> (int \<rightharpoonup> real) \<Rightarrow> process_record list \<Rightarrow>
     (cycle_error + process_record list) \<times> (int \<rightharpoonup> real)" where
  "sample_processes s do_cpu_sample [] cache processes = (Inr processes, cache)"
| "sample_processes s do_cpu_sample (p # ps) cache processes =
     (case sample_process s do_cpu_sample cache p of
        (Skipped, cache') \<Rightarrow> sample_processes s do_cpu_sample ps cache' processes
      | (Raised e, cache') \<Rightarrow> (Inl e, cache')
      | (Appended r, cache') \<Rightarrow> sample_processes s do_cpu_sample ps cache' (processes @ [r]))"

definition make_mem_info :: "virtual_memory \<Rightarrow> mem_info" where
  "make_mem_info mem =
     \<lparr> mi_total = py_round (of_nat (vm_total mem) / 1073741824) 2,
       mi_used = py_round (of_nat (vm_used mem) / 1073741824) 2,
       mi_available = py_round (of_nat (vm_available mem) / 1073741824) 2,
       mi_percent = py_round (vm_percent mem) 1 \<rparr>"

text \<open>
  One pass of the \<open>while\<close> loop of \<open>run\<close>, up to the wait: the new fetcher state and what
  \<open>data_ready\<close> emits, if anything. The sort is stable and descending by \<open>memory_mb\<close>; the
  counter advances in the \<open>finally\<close> clause, also when the cycle raised.
\<close>

definition run_cycle ::
  "data_fetcher \<Rightarrow> virtual_memory \<Rightarrow> os_process list \<Rightarrow>
     data_fetcher \<times> (mem_info \<times> process_record list) option" where
  "run_cycle s mem procs =
     (let info = make_mem_info mem;
          do_cpu_sample = (cpu_sample_counter s = 0);
          (res, cache') = sample_processes s do_cpu_sample procs (process_cache s) [];
          advance = (\<lambda>t. t\<lparr>cpu_sample_counter := (cpu_sample_counter t + 1) mod cpu_sample_rate t\<rparr>)
      in case res of
           Inl e \<Rightarrow> (advance (s\<lparr>process_cache := cache'\<rparr>), None)
         | Inr processes \<Rightarrow>
             (let cleaned = cache' |` set (map pid processes);
                  s1 = s\<lparr>process_cache := cleaned\<rparr>;
                  s2 = (if do_cpu_sample \<and> \<not> cpu_initialized s1
                        then s1\<lparr>cpu_initialized := True\<rparr> else s1)
              in (advance s2, Some (info, sort_key (\<lambda>r. - memory_mb r) processes))))"

text \<open>The fetcher after a number of cycles, each with its own view of the system.\<close>

fun run_cycles :: "data_fetcher \<Rightarrow> (virtual_memory \<times> os_process list) list \<Rightarrow> data_fetcher" where
  "run_cycles s [] = s"
| "run_cycles s ((mem, procs) # rest) = run_cycles (fst (run_cycle s mem procs)) rest"

text \<open>
  A CPU sample cycle has completed in a history of cycles when one of the cycles 0, 4,
  8, ... of it ran to its end and emitted its list. The history starts at the fetcher
  as \<open>__init__\<close> leaves it, with the total memory read then.
\<close>

definition completed_sample_cycle ::
  "nat \<Rightarrow> (virtual_memory \<times> os_process list) list \<Rightarrow> bool" where
  "completed_sample_cycle vm_total_at_start history \<longleftrightarrow>
     (\<exists>k<length history. k mod 4 = 0
        \<and> snd (run_cycle (run_cycles (data_fetcher_init vm_total_at_start) (take k history))
                 (fst (history ! k)) (snd (history ! k))) \<noteq> None)"

text \<open>What a sampling cycle leaves in the cache for a process it has a record for.\<close>

definition cpu_written :: "bool \<Rightarrow> (int \<rightharpoonup> real) \<Rightarrow> os_process \<Rightarrow> real option" where
  "cpu_written initialized cache p =
     (case os_cpu p of
        CpuPercent v \<Rightarrow> Some (if initialized then v else 0)
      | CpuAccessDenied \<Rightarrow> cache (os_pid p)
      | CpuNoSuchProcess \<Rightarrow> cache (os_pid p)
      | CpuOtherException \<Rightarrow> cache (os_pid p))"

section \<open>The window: \<open>TaskManagerGUI\<close>\<close>

subsection \<open>The two predicates behind the check boxes\<close>

text \<open>
  \<open>is_inaccessible_process\<close> asks the operating system: \<open>exe_of\<close> is
  \<open>psutil.Process(pid).exe()\<close>, \<open>path_exists\<close> is \<open>os.path.exists\<close>, and
  \<open>exe_dir_readable\<close> is \<open>os.access(os.path.dirname(exe_path), os.R_OK)\<close>.
\<close>

datatype exe_result = ExePath string | ExeNoSuchProcess | ExeAccessDenied | ExeOSError

record os_files =
  exe_of :: "int \<Rightarrow> exe_result"
  path_exists :: "string \<Rightarrow> bool"
  exe_dir_readable :: "string \<Rightarrow> bool"

definition is_inaccessible_process :: "os_files \<Rightarrow> process_record \<Rightarrow> bool" where
  "is_inaccessible_process os proc =
     (case exe_of os (pid proc) of
        ExePath exe_path \<Rightarrow>
          (if exe_path = [] \<or> \<not> path_exists os exe_path then True
           else \<not> exe_dir_readable os exe_path)
      | ExeNoSuchProcess \<Rightarrow> True
      | ExeAccessDenied \<Rightarrow> True
      | ExeOSError \<Rightarrow> True)"

definition system_users :: "string set" where
  "system_users =
     set [''root'',
          ''system'',
          ''local system'',
          ''nt authority'' @ [CHR 0x5C] @ ''system'',
          ''nt authority'' @ [CHR 0x5C] @ ''localservice'',
          ''nt authority'' @ [CHR 0x5C] @ ''networkservice'',
          ''localservice'',
          ''networkservice'']"

definition is_system_process :: "process_record \<Rightarrow> bool" where
  "is_system_process proc =
     (let user = lower (username proc)
      in if pid proc \<in> set [0, 1, 2] then True
         else if user \<in> system_users then True
         else False)"

subsection \<open>The state of the window\<close>

text \<open>The seven cells of a table row and the background they share.\<close>

datatype row_color = color_high | color_med | color_none

record row_items =
  pid_item :: string
  user_item :: string
  name_item :: string
  cpu_item :: string
  ram_item :: string
  percent_item :: string
  disk_item :: string
  background :: row_color

text \<open>
  The fields of the window that filtering, coalescing and rendering use. A timer is
  \<open>None\<close> when stopped and \<open>Some ms\<close> when running with that delay; \<open>start(ms)\<close> also sets
  the interval that a later \<open>start()\<close> uses. \<open>flush_single_shots\<close> holds the delays of the
  pending \<open>QTimer.singleShot(ms, self._flush_ui_update)\<close> calls. The table is the list of
  its rows, \<open>None\<close> where \<open>item(r, 0)\<close> is \<open>None\<close>.
\<close>

record task_manager_gui =
  cached_processes :: "process_record list"
  last_mem_info :: "mem_info option"
  last_rendered :: "process_record list"
  pending_render_mem_info :: "mem_info option"
  pending_render_processes :: "process_record list option"
  pending_total_processes :: nat
  user_scrolling :: bool
  hide_system_checkbox :: bool
  hide_inaccessible_checkbox :: bool
  search_input :: string
  ui_update_timer :: "nat option"
  ui_update_interval :: nat
  flush_single_shots :: "nat list"
  pending_offscreen_fill :: "(nat \<times> process_record) list"
  bg_fill_timer_active :: bool
  table_rows :: "row_items option list"
  status_bar :: string

definition task_manager_gui_init :: "bool \<Rightarrow> bool \<Rightarrow> task_manager_gui" where
  "task_manager_gui_init hide_system hide_inaccessible =
     \<lparr> cached_processes = [],
       last_mem_info = None,
       last_rendered = [],
       pending_render_mem_info = None,
       pending_render_processes = None,
       pending_total_processes = 0,
       user_scrolling = False,
       hide_system_checkbox = hide_system,
       hide_inaccessible_checkbox = hide_inaccessible,
       search_input = [],
       ui_update_timer = None,
       ui_update_interval = 20,
       flush_single_shots = [],
       pending_offscreen_fill = [],
       bg_fill_timer_active = False,
       table_rows = [],
       status_bar = [] \<rparr>"

subsection \<open>\<open>_apply_search_filter\<close>\<close>

text \<open>The three stages, each a list comprehension over the result of the one before.\<close>

definition hide_system_stage :: "bool \<Rightarrow> process_record list \<Rightarrow> process_record list" where
  "hide_system_stage checked processes =
     (if checked then [p \<leftarrow> processes. \<not> is_system_process p] else processes)"

definition hide_inaccessible_stage ::
  "os_files \<Rightarrow> bool \<Rightarrow> process_record list \<Rightarrow> process_record list" where
  "hide_inaccessible_stage os checked processes =
     (if checked then [p \<leftarrow> processes. \<not> is_inaccessible_process os p] else processes)"

definition search_stage :: "string \<Rightarrow> process_record list \<Rightarrow> process_record list" where
  "search_stage text processes =
     (let search_text = lower (strip text)
      in if search_text \<noteq> [] then [p \<leftarrow> processes. is_substring search_text (lower (name p))]
         else processes)"

definition apply_search_filter :: "os_files \<Rightarrow> task_manager_gui \<Rightarrow> task_manager_gui" where
  "apply_search_filter os g =
     (case last_mem_info g of
        None \<Rightarrow> g
      | Some m \<Rightarrow>
          (let processes = cached_processes g;
               total_processes = length processes;
               processes1 = hide_system_stage (hide_system_checkbox g) processes;
               processes2 = hide_inaccessible_stage os (hide_inaccessible_checkbox g) processes1;
               processes3 = search_stage (search_input g) processes2
           in g\<lparr> pending_render_mem_info := last_mem_info g,
                 pending_render_processes := Some processes3,
                 pending_total_processes := total_processes,
                 ui_update_timer := Some (ui_update_interval g) \<rparr>))"

subsection \<open>\<open>_render_process_list\<close>\<close>

text \<open>
  What the table widget reports about its viewport: \<open>rowAt(0)\<close>,
  \<open>rowAt(viewport_height - 1)\<close>, the height of the viewport, and the row height used
  for the estimate (\<open>rowHeight(0)\<close>, or the default section size of an empty table).
\<close>

record viewport =
  row_at_top :: int
  row_at_bottom :: int
  viewport_height :: int
  row_height :: int

text \<open>\<open>int(a / b)\<close> for a positive \<open>b\<close>: the quotient cut towards zero.\<close>

definition int_of_quotient :: "int \<Rightarrow> int \<Rightarrow> int" where
  "int_of_quotient a b = (if 0 \<le> a then a div b else - ((- a) div b))"

definition visible_range :: "viewport \<Rightarrow> nat \<Rightarrow> int \<times> int" where
  "visible_range vp n =
     (let top_row = (if row_at_top vp < 0 then 0 else row_at_top vp);
          rows_visible = max 1 (int_of_quotient (viewport_height vp) (max 1 (row_height vp)));
          bottom_row = (if row_at_bottom vp < 0 then min (int n - 1) (top_row + rows_visible)
                        else row_at_bottom vp)
      in (top_row, bottom_row))"

definition row_background :: "process_record \<Rightarrow> row_color" where
  "row_background proc =
     (if 10 < memory_percent proc then color_high
      else if 5 < memory_percent proc then color_med
      else color_none)"

text \<open>The items the synchronous render path creates for one row.\<close>

definition render_row_items :: "process_record \<Rightarrow> row_items" where
  "render_row_items proc =
     (let cpu_value = max (1 / 100) (cpu_percent proc)
      in \<lparr> pid_item = show_int (pid proc),
           user_item = username proc,
           name_item = name proc,
           cpu_item = format_1f cpu_value,
           ram_item = format_1f (memory_mb proc),
           percent_item = format_1f (memory_percent proc),
           disk_item = format_1f (disk_io_mb proc),
           background = row_background proc \<rparr>)"

text \<open>
  The loop over \<open>enumerate(processes)\<close>. A row outside the visible range is skipped, and so
  is a row equal to the one rendered before at its place. While the user scrolls the
  items are queued instead of set, and the queue is replaced right after the loop, so
  the table keeps its row.
\<close>

fun render_rows ::
  "bool \<Rightarrow> bool \<Rightarrow> int \<Rightarrow> int \<Rightarrow> process_record list \<Rightarrow> nat \<Rightarrow> process_record list \<Rightarrow>
     row_items option list \<Rightarrow> row_items option list" where
  "render_rows full_reload scrolling top_row bottom_row prev_rows row [] tbl = tbl"
| "render_rows full_reload scrolling top_row bottom_row prev_rows row (proc # rest) tbl =
     (if int row < top_row \<or> bottom_row < int row then
        render_rows full_reload scrolling top_row bottom_row prev_rows (Suc row) rest tbl
      else if \<not> full_reload \<and> row < length prev_rows \<and> prev_rows ! row = proc then
        render_rows full_reload scrolling top_row bottom_row prev_rows (Suc row) rest tbl
      else if \<not> scrolling then
        render_rows full_reload scrolling top_row bottom_row prev_rows (Suc row) rest
          (tbl[row := Some (render_row_items proc)])
      else
        render_rows full_reload scrolling top_row bottom_row prev_rows (Suc row) rest tbl)"

definition offscreen_pending ::
  "row_items option list \<Rightarrow> process_record list \<Rightarrow> (nat \<times> process_record) list" where
  "offscreen_pending tbl processes =
     [(r, processes ! r). r \<leftarrow> [0..<length tbl], tbl ! r = None \<and> r < length processes]"

definition status_text :: "bool \<Rightarrow> bool \<Rightarrow> string \<Rightarrow> nat \<Rightarrow> nat \<Rightarrow> string" where
  "status_text hide_system hide_inaccessible current_time shown total_processes =
     (if hide_system \<or> hide_inaccessible then
        ''Ready - Last updated: '' @ current_time @ '' | Showing: '' @ show_nat shown
          @ '' / Total Processes: '' @ show_nat total_processes
      else
        ''Ready - Last updated: '' @ current_time @ '' | Total Processes: '' @ show_nat total_processes)"

text \<open>
  The render itself; \<open>current_time\<close> is the clock formatted as \<open>%H:%M:%S\<close>. The labels
  and the progress bar of the memory summary, the sort flag and the selection are
  widgets that none of the functions below reads back; they are left out.
\<close>

definition render_process_list ::
  "viewport \<Rightarrow> string \<Rightarrow> task_manager_gui \<Rightarrow> mem_info \<Rightarrow> process_record list \<Rightarrow> nat \<Rightarrow>
     task_manager_gui" where
  "render_process_list vp current_time g info processes total_processes =
     (let prev_rows = last_rendered g;
          full_reload = (length prev_rows \<noteq> length processes);
          tbl0 = (if full_reload then replicate (length processes) None else table_rows g);
          (top_row, bottom_row) = visible_range vp (length processes);
          tbl1 = render_rows full_reload (user_scrolling g) top_row bottom_row prev_rows 0
                   processes tbl0;
          pending = offscreen_pending tbl1 processes
      in g\<lparr> table_rows := tbl1,
            pending_offscreen_fill := pending,
            bg_fill_timer_active := (pending \<noteq> []),
            last_rendered := processes,
            status_bar := status_text (hide_system_checkbox g) (hide_inaccessible_checkbox g)
                            current_time (length processes) total_processes \<rparr>)"

subsection \<open>\<open>_flush_ui_update\<close>\<close>

text \<open>
  \<open>x or y\<close> takes \<open>y\<close> when \<open>x\<close> is \<open>None\<close>, an empty list or 0. Rendering with no memory
  information at all raises \<open>TypeError\<close> at the first label.
\<close>

datatype ui_error = TypeError

definition flush_ui_update ::
  "viewport \<Rightarrow> string \<Rightarrow> task_manager_gui \<Rightarrow> ui_error + task_manager_gui" where
  "flush_ui_update vp current_time g =
     (let info = (case pending_render_mem_info g of Some m \<Rightarrow> Some m | None \<Rightarrow> last_mem_info g);
          processes = (case pending_render_processes g of
                         Some ps \<Rightarrow> if ps = [] then cached_processes g else ps
                       | None \<Rightarrow> cached_processes g);
          total = (if pending_total_processes g = 0 then length (cached_processes g)
                   else pending_total_processes g)
      in if user_scrolling g then
           Inr (g\<lparr>ui_update_timer := Some 250, ui_update_interval := 250\<rparr>)
         else
           (case info of
              None \<Rightarrow> Inl TypeError
            | Some m \<Rightarrow>
                Inr ((render_process_list vp current_time g m processes total)
                       \<lparr> pending_render_mem_info := None,
                         pending_render_processes := None,
                         pending_total_processes := 0 \<rparr>)))"

subsection \<open>\<open>_is_significant_change\<close> and \<open>on_data_ready\<close>\<close>

definition is_significant_change ::
  "task_manager_gui \<Rightarrow> mem_info \<Rightarrow> process_record list \<Rightarrow> bool" where
  "is_significant_change g info processes =
     (if (case last_mem_info g of
            Some last_mem \<Rightarrow> 1 / 2 \<le> \<bar>mi_percent info - mi_percent last_mem\<bar>
          | None \<Rightarrow> False)
      then True
      else
        (let last_rows = last_rendered g;
             new_top = map pid (take 3 processes);
             old_top = map pid (take 3 last_rows)
         in if new_top \<noteq> [] \<and> old_top \<noteq> [] \<and> set new_top \<noteq> set old_top then True
            else if 3 < \<bar>int (length processes) - int (length last_rows)\<bar> then True
            else False))"

text \<open>
  The handler of \<open>data_ready\<close>. The statements run in the order of the source: the cache
  and \<open>_last_mem_info\<close> are assigned first, the change is judged next, the filters are
  applied, and an immediate change stops the timer and schedules the flush at once.
  The second component is the flag \<open>immediate\<close>.
\<close>

definition on_data_ready ::
  "os_files \<Rightarrow> task_manager_gui \<Rightarrow> mem_info \<Rightarrow> process_record list \<Rightarrow> task_manager_gui \<times> bool" where
  "on_data_ready os g info processes =
     (let g1 = g\<lparr>cached_processes := processes, last_mem_info := Some info\<rparr>;
          immediate = (if \<not> user_scrolling g1 then is_significant_change g1 info processes
                       else False);
          g2 = apply_search_filter os g1
      in if immediate then
           (g2\<lparr>ui_update_timer := None, flush_single_shots := flush_single_shots g2 @ [0]\<rparr>, True)
         else (g2, False))"

subsection \<open>\<open>_bg_fill_step\<close>\<close>

text \<open>The items the background filler creates for one row.\<close>

definition bg_fill_row_items :: "process_record \<Rightarrow> row_items" where
  "bg_fill_row_items proc =
     (let cpu_value = max (1 / 100) (cpu_percent proc)
      in \<lparr> pid_item = show_int (pid proc),
           user_item = username proc,
           name_item = name proc,
           cpu_item = format_1f cpu_value,
           ram_item = format_1f (memory_mb proc),
           percent_item = format_1f (memory_percent proc),
           disk_item = format_1f (disk_io_mb proc),
           background = row_background proc \<rparr>)"

text \<open>At most \<open>batch_size\<close> entries are popped; an entry beyond the last row is dropped.\<close>

fun bg_fill_batch ::
  "nat \<Rightarrow> (nat \<times> process_record) list \<Rightarrow> row_items option list \<Rightarrow>
     (nat \<times> process_record) list \<times> row_items option list" where
  "bg_fill_batch 0 pending tbl = (pending, tbl)"
| "bg_fill_batch (Suc k) [] tbl = ([], tbl)"
| "bg_fill_batch (Suc k) ((row, proc) # pending) tbl =
     (if length tbl \<le> row then bg_fill_batch k pending tbl
      else bg_fill_batch k pending (tbl[row := Some (bg_fill_row_items proc)]))"

definition bg_fill_step :: "task_manager_gui \<Rightarrow> task_manager_gui" where
  "bg_fill_step g =
     (if pending_offscreen_fill g = [] then g\<lparr>bg_fill_timer_active := False\<rparr>
      else
        (let (pending, tbl) = bg_fill_batch 8 (pending_offscreen_fill g) (table_rows g)
         in g\<lparr> pending_offscreen_fill := pending,
               table_rows := tbl,
               bg_fill_timer_active := (if pending = [] then False else bg_fill_timer_active g) \<rparr>))"

subsection \<open>\<open>kill_processes\<close>\<close>

text \<open>
  What \<open>psutil.Process(pid)\<close> followed by \<open>terminate()\<close> does: it succeeds or raises. The
  operating system is a state \<open>'w\<close> that each attempt may change.
\<close>

datatype kill_outcome = Terminated | NoSuchProcess | AccessDenied | OtherException string

record kill_lists =
  failed :: "string list"
  access_denied :: "string list"
  terminated :: "string list"

definition pid_label :: "int \<Rightarrow> string \<Rightarrow> string" where
  "pid_label i nm = nm @ '' (PID: '' @ show_int i @ '')''"

fun kill_loop ::
  "('w \<Rightarrow> int \<Rightarrow> kill_outcome \<times> 'w) \<Rightarrow> (int \<times> string) list \<Rightarrow> 'w \<Rightarrow> kill_lists \<Rightarrow>
     kill_lists \<times> 'w" where
  "kill_loop terminate [] w acc = (acc, w)"
| "kill_loop terminate ((i, nm) # rest) w acc =
     (case terminate w i of
        (Terminated, w') \<Rightarrow>
          kill_loop terminate rest w' (acc\<lparr>terminated := terminated acc @ [pid_label i nm]\<rparr>)
      | (NoSuchProcess, w') \<Rightarrow> kill_loop terminate rest w' acc
      | (AccessDenied, w') \<Rightarrow>
          kill_loop terminate rest w' (acc\<lparr>access_denied := access_denied acc @ [pid_label i nm]\<rparr>)
      | (OtherException e, w') \<Rightarrow>
          kill_loop terminate rest w' (acc\<lparr>failed := failed acc @ [pid_label i nm @ '': '' @ e]\<rparr>))"

text \<open>The text of the warning box, before \<open>strip()\<close>.\<close>

definition warning_text :: "kill_lists \<Rightarrow> string" where
  "warning_text acc =
     (if access_denied acc \<noteq> [] then
        ''Access denied for:'' @ [CHR 0x0A] @ join_lines (access_denied acc)
          @ [CHR 0x0A, CHR 0x0A] @ ''You may need to run with sudo.'' @ [CHR 0x0A, CHR 0x0A]
      else [])
     @ (if failed acc \<noteq> [] then ''Failed to terminate:'' @ [CHR 0x0A] @ join_lines (failed acc)
        else [])"

text \<open>
  The whole call: the three lists, the message put on the status bar (if any), the
  warning shown (if any), and the operating system afterwards. \<open>pids_dict\<close> is the
  dictionary in its iteration order.
\<close>

record 'w kill_report =
  kill_result :: kill_lists
  status_message :: "string option"
  warning :: "string option"
  os_after :: 'w

definition kill_processes ::
  "('w \<Rightarrow> int \<Rightarrow> kill_outcome \<times> 'w) \<Rightarrow> (int \<times> string) list \<Rightarrow> 'w \<Rightarrow> 'w kill_report" where
  "kill_processes terminate pids_dict w =
     (let (acc, w') = kill_loop terminate pids_dict w
                        \<lparr>failed = [], access_denied = [], terminated = []\<rparr>
      in \<lparr> kill_result = acc,
           status_message =
             (if terminated acc \<noteq> [] then
                Some (''Terminated '' @ show_nat (length (terminated acc)) @ '' process(es)'')
              else None),
           warning =
             (if access_denied acc \<noteq> [] \<or> failed acc \<noteq> [] then Some (strip (warning_text acc))
              else None),
           os_after = w' \<rparr>)"

text \<open>The answers the operating system gives when the targets are tried in order.\<close>

fun kill_outcomes ::
  "('w \<Rightarrow> int \<Rightarrow> kill_outcome \<times> 'w) \<Rightarrow> (int \<times> string) list \<Rightarrow> 'w \<Rightarrow> kill_outcome list" where
  "kill_outcomes terminate [] w = []"
| "kill_outcomes terminate ((i, nm) # rest) w =
     fst (terminate w i) # kill_outcomes terminate rest (snd (terminate w i))"

section \<open>Concrete inputs\<close>

text \<open>A machine with 8 GiB of memory, half of it used, and a few processes as seen in one cycle.\<close>

definition example_memory :: virtual_memory where
  "example_memory =
     \<lparr> vm_total = 8589934592, vm_used = 4294967296, vm_available = 4294967296, vm_percent = 50 \<rparr>"

definition example_mem_info :: mem_info where
  "example_mem_info = \<lparr> mi_total = 8, mi_used = 4, mi_available = 4, mi_percent = 50 \<rparr>"

text \<open>A shell of 100000 bytes.\<close>

definition small_process :: os_process where
  "small_process =
     \<lparr> os_pid = 42, os_info = Info (Some ''sh'') (Some 100000) (Some ''alice''),
       os_cpu = CpuPercent 0, os_io = IoCounters 0 0 \<rparr>"

definition small_record :: process_record where
  "small_record =
     \<lparr> pid = 42, name = ''sh'', username = ''alice'', cpu_percent = 0, memory_mb = 1 / 10,
       memory_percent = 0, disk_io_mb = 0 \<rparr>"

text \<open>A database of 200 MiB that used 7.5 percent CPU and moved 3 MiB.\<close>

definition big_process :: os_process where
  "big_process =
     \<lparr> os_pid = 7, os_info = Info (Some ''db'') (Some 209715200) (Some ''bob''),
       os_cpu = CpuPercent (15 / 2), os_io = IoCounters 1048576 2097152 \<rparr>"

text \<open>The same process when its CPU times and I/O counters may not be read.\<close>

definition big_process_denied :: os_process where
  "big_process_denied =
     \<lparr> os_pid = 7, os_info = Info (Some ''db'') (Some 209715200) (Some ''bob''),
       os_cpu = CpuAccessDenied, os_io = IoAccessDenied \<rparr>"

definition big_record :: "real \<Rightarrow> real \<Rightarrow> process_record" where
  "big_record cpu disk =
     \<lparr> pid = 7, name = ''db'', username = ''bob'', cpu_percent = cpu, memory_mb = 200,
       memory_percent = 24 / 10, disk_io_mb = disk \<rparr>"

text \<open>
  A process whose memory information may not be read, and a start in which the first
  cycle meets it: that cycle raises and emits nothing, and three more cycles follow.
\<close>

definition no_memory_process :: os_process where
  "no_memory_process =
     \<lparr> os_pid = 9, os_info = Info (Some ''guard'') None (Some ''root''),
       os_cpu = CpuPercent 1, os_io = IoAccessDenied \<rparr>"

definition aborted_start :: "(virtual_memory \<times> os_process list) list" where
  "aborted_start =
     [(example_memory, [no_memory_process]), (example_memory, [big_process]),
      (example_memory, [big_process]), (example_memory, [big_process])]"

text \<open>A machine and a process whose exact percentage is the decimal tie 28.75.\<close>

definition tie_memory :: virtual_memory where
  "tie_memory =
     \<lparr> vm_total = 7960657920, vm_used = 2288689152, vm_available = 5671968768,
       vm_percent = 287 / 10 \<rparr>"

definition tie_process :: os_process where
  "tie_process =
     \<lparr> os_pid = 77, os_info = Info (Some ''vm'') (Some 2288689152) (Some ''carol''),
       os_cpu = CpuPercent 0, os_io = IoCounters 0 0 \<rparr>"

definition tie_record :: process_record where
  "tie_record =
     \<lparr> pid = 77, name = ''vm'', username = ''carol'', cpu_percent = 0,
       memory_mb = 21827 / 10, memory_percent = 287 / 10, disk_io_mb = 0 \<rparr>"

text \<open>Eight cycles that each see the database alone.\<close>

definition eight_cycles :: "(virtual_memory \<times> os_process list) list" where
  "eight_cycles =
     [(example_memory, [big_process]), (example_memory, [big_process]),
      (example_memory, [big_process]), (example_memory, [big_process]),
      (example_memory, [big_process]), (example_memory, [big_process]),
      (example_memory, [big_process]), (example_memory, [big_process])]"

text \<open>
  A window that has received one snapshot: a job of \<open>root\<close> and three programs of a
  user. Every executable can be read, the table shows twenty rows, and the clock
  says noon.
\<close>

definition root_record :: process_record where
  "root_record =
     \<lparr> pid = 500, name = ''cron'', username = ''root'', cpu_percent = 0, memory_mb = 3,
       memory_percent = 0, disk_io_mb = 0 \<rparr>"

definition user_record :: "int \<Rightarrow> string \<Rightarrow> real \<Rightarrow> process_record" where
  "user_record i nm mb =
     \<lparr> pid = i, name = nm, username = ''alice'', cpu_percent = 0, memory_mb = mb,
       memory_percent = 1, disk_io_mb = 0 \<rparr>"

definition example_processes :: "process_record list" where
  "example_processes =
     [user_record 2001 ''chrome.exe'' 300, user_record 2002 ''explorer.exe'' 120,
      user_record 2003 ''Chrome Helper'' 80, root_record]"

definition example_exe :: "int \<Rightarrow> exe_result" where
  "example_exe i = ExePath ''/usr/bin/program''"

definition always :: "string \<Rightarrow> bool" where
  "always path = True"

definition example_files :: os_files where
  "example_files = \<lparr> exe_of = example_exe, path_exists = always, exe_dir_readable = always \<rparr>"

definition example_gui :: "bool \<Rightarrow> bool \<Rightarrow> string \<Rightarrow> task_manager_gui" where
  "example_gui hide_system hide_inaccessible text =
     (task_manager_gui_init hide_system hide_inaccessible)
       \<lparr> cached_processes := example_processes,
         last_mem_info := Some example_mem_info,
         search_input := text \<rparr>"

definition example_viewport :: viewport where
  "example_viewport =
     \<lparr> row_at_top = 0, row_at_bottom = - 1, viewport_height = 600, row_height = 30 \<rparr>"

definition noon :: string where
  "noon = ''12:00:00''"

text \<open>A job whose owner the operating system reports with a domain in front.\<close>

definition domain_root_process :: os_process where
  "domain_root_process =
     \<lparr> os_pid = 500,
       os_info = Info (Some ''cron'') (Some 3145728) (Some (''CORP'' @ [CHR 0x5C] @ ''Root'')),
       os_cpu = CpuPercent 0, os_io = IoCounters 0 0 \<rparr>"

definition domain_root_record :: process_record where
  "domain_root_record =
     \<lparr> pid = 500, name = ''cron'', username = ''Root'', cpu_percent = 0, memory_mb = 3,
       memory_percent = 0, disk_io_mb = 0 \<rparr>"

section \<open>Facts about rounding\<close>

lemma round_half_even_err: "\<bar>of_int (round_half_even x) - x\<bar> \<le> 1 / 2"
proof -
  have a: "of_int \<lfloor>x\<rfloor> \<le> x" by (rule of_int_floor_le)
  have b: "x < of_int \<lfloor>x\<rfloor> + 1" by linarith
  show ?thesis
    using a b unfolding round_half_even_def Let_def
    by (auto simp: abs_le_iff)
qed

lemma py_round_1_err: "\<bar>py_round x 1 - x\<bar> \<le> 1 / 20"
proof -
  have "\<bar>of_int (round_half_even (x * 10)) - x * 10\<bar> \<le> 1 / 2"
    by (rule round_half_even_err)
  then show ?thesis
    unfolding py_round_def by (simp add: abs_le_iff field_simps)
qed

lemma py_round_0 [simp]: "py_round 0 n = 0"
  by (simp add: py_round_def round_half_even_def)



section \<open>Facts about rounding to a double\<close>


lemma bit_length_0 [simp]: "bit_length 0 = 0"
  by (simp add: bit_length.simps)

lemma bit_length_pos: "0 < n \<Longrightarrow> bit_length n = Suc (bit_length (n div 2))"
  by (subst bit_length.simps) simp

lemma bit_length_bounds: "0 < n \<Longrightarrow> 2 ^ (bit_length n - 1) \<le> n \<and> n < 2 ^ bit_length n"
proof (induction n rule: less_induct)
  case (less n)
  show ?case
  proof (cases "n div 2 = 0")
    case True
    with less.prems have "n = 1" by (simp add: div_eq_0_iff) 
    then show ?thesis by (simp add: bit_length_pos)
  next
    case False
    then have pos: "0 < n div 2" by simp
    have lt: "n div 2 < n" using less.prems by simp
    from less.IH [OF lt pos] have
      a: "2 ^ (bit_length (n div 2) - 1) \<le> n div 2" and b: "n div 2 < 2 ^ bit_length (n div 2)"
      by simp_all
    have bl: "bit_length n = Suc (bit_length (n div 2))"
      using less.prems by (rule bit_length_pos)
    have c: "0 < bit_length (n div 2)" using pos by (simp add: bit_length_pos)
    then have d: "(2::nat) ^ bit_length (n div 2) = 2 * 2 ^ (bit_length (n div 2) - 1)"
      by (cases "bit_length (n div 2)") simp_all
    have "2 ^ bit_length (n div 2) \<le> n" using a d by linarith
    moreover have "n < 2 * 2 ^ bit_length (n div 2)" using b by linarith
    ultimately show ?thesis by (simp add: bl)
  qed
qed


lemma binary_exponent_le:
  assumes "0 < x"
  shows "2 powi (binary_exponent x) \<le> x"
proof (cases "1 \<le> x")
  case True
  define n where "n = nat \<lfloor>x\<rfloor>"
  define b where "b = bit_length n - 1"
  have npos: "0 < n" using True by (simp add: n_def)
  have nx: "real n \<le> x" using True by (simp add: n_def)
  from bit_length_bounds [OF npos] have "2 ^ b \<le> n" by (simp add: b_def)
  then have "real (2 ^ b) \<le> real n" by (simp only: of_nat_le_iff)
  then have pw: "(2::real) ^ b \<le> real n" by simp
  have "0 < bit_length n" using npos by (simp add: bit_length_pos)
  then have "int (bit_length n) - 1 = int b" by (simp add: b_def)
  then have "binary_exponent x = int b"
    using True by (simp add: binary_exponent_def n_def)
  then have "2 powi (binary_exponent x) = (2::real) ^ b" by (simp only: power_int_of_nat)
  with pw nx show ?thesis by linarith
next
  case False
  define c where "c = \<lceil>1 / x\<rceil>"
  define k where "k = nat (c - 1)"
  define b where "b = bit_length k"
  from False assms have inv: "1 < 1 / x" by simp
  then have c2: "2 \<le> c" unfolding c_def by linarith
  then have kpos: "0 < k" by (simp add: k_def)
  have kc: "c = int (k + 1)" using c2 by (simp add: k_def)
  from bit_length_bounds [OF kpos] have "k < 2 ^ b" by (simp add: b_def)
  then have "k + 1 \<le> 2 ^ b" by simp
  then have "real (k + 1) \<le> real (2 ^ b)" by (simp only: of_nat_le_iff)
  then have pw: "real (k + 1) \<le> 2 ^ b" by simp
  have "1 / x \<le> of_int c" unfolding c_def by (rule le_of_int_ceiling)
  also have "\<dots> = real (k + 1)" by (simp only: kc of_int_of_nat_eq)
  finally have "1 / x \<le> 2 ^ b" using pw by linarith
  then have "1 \<le> x * 2 ^ b"
    using assms by (simp add: field_simps)
  then have low: "1 / 2 ^ b \<le> x"
    by (simp add: field_simps)
  have "binary_exponent x = - int b"
    using False by (simp add: binary_exponent_def k_def b_def c_def)
  then have "2 powi (binary_exponent x) = inverse ((2::real) ^ b)"
    by (simp only: power_int_minus power_int_of_nat)
  with low show ?thesis by (simp add: inverse_eq_divide)
qed

lemma two_powi_shift: "(2::real) powi (e - 52) = 2 powi e / 2 ^ 52"
proof -
  have "(2::real) powi (e + (- 52)) = 2 powi e * 2 powi (- 52)"
    by (rule power_int_add) simp
  moreover have "(2::real) powi (- 52) = 1 / 2 ^ 52"
    by (simp add: power_int_def inverse_eq_divide power_one_over)
  ultimately show ?thesis by simp
qed

lemma two_powi_cancel: "(2::real) powi (52 - e) * 2 powi (e - 52) = 1"
proof -
  have "(2::real) powi ((52 - e) + (e - 52)) = 2 powi (52 - e) * 2 powi (e - 52)"
    by (rule power_int_add) simp
  then show ?thesis by simp
qed

lemma to_double_err:
  assumes "0 \<le> x"
  shows "\<bar>to_double x - x\<bar> \<le> x / 2 ^ 53"
proof (cases "x = 0")
  case True
  then show ?thesis by (simp add: to_double_def)
next
  case False
  with assms have pos: "0 < x" by simp
  define e where "e = binary_exponent x"
  define s where "s = (2::real) powi (e - 52)"
  define y where "y = x * 2 powi (52 - e)"
  define m where "m = round_half_even y"
  have spos: "0 < s" by (simp add: s_def)
  have td: "to_double x = of_int m * s"
    using pos by (simp add: to_double_def Let_def e_def y_def m_def s_def)
  have "y * s = x * (2 powi (52 - e) * 2 powi (e - 52))"
    by (simp add: y_def s_def)
  then have xy: "y * s = x" by (simp only: two_powi_cancel mult_1_right)
  have r: "\<bar>of_int m - y\<bar> \<le> 1 / 2"
    unfolding m_def by (rule round_half_even_err)
  have "to_double x - x = (of_int m - y) * s"
    using td xy by (simp add: algebra_simps)
  then have "\<bar>to_double x - x\<bar> = \<bar>of_int m - y\<bar> * s"
    using spos by (simp add: abs_mult)
  also have "\<dots> \<le> 1 / 2 * s"
    using r spos by (intro mult_right_mono) simp_all
  also have "\<dots> = 2 powi e / 2 ^ 53"
    by (simp add: s_def two_powi_shift)
  also have "\<dots> \<le> x / 2 ^ 53"
    using binary_exponent_le [OF pos] by (simp add: e_def divide_right_mono)
  finally show ?thesis .
qed

lemma to_double_nonneg:
  assumes "0 \<le> x"
  shows "0 \<le> to_double x"
proof -
  have "x / 2 ^ 53 \<le> x" using assms by (simp add: field_simps)
  with to_double_err [OF assms] show ?thesis by linarith
qed



lemma percent_double_err:
  assumes "0 \<le> q"
  shows "\<bar>to_double (to_double q * 100) - q * 100\<bar> \<le> 300 * q / 2 ^ 53"
proof -
  define u where "u = (1::real) / 2 ^ 53"
  define d where "d = to_double q"
  define P where "P = q * u"
  define A where "A = \<bar>to_double (d * 100) - d * 100\<bar>"
  define B where "B = \<bar>d - q\<bar>"
  have u: "0 < u" "u \<le> 1" by (simp_all add: u_def)
  have e1: "B \<le> P"
    using to_double_err [OF assms] by (simp add: d_def u_def P_def B_def)
  have dn: "0 \<le> d * 100"
    using to_double_nonneg [OF assms] by (simp add: d_def)
  have e2: "A \<le> d * 100 * u"
    using to_double_err [OF dn] by (simp add: u_def A_def)
  have dq: "d \<le> q + P" using e1 unfolding B_def by linarith
  have qu: "P \<le> q" unfolding P_def using assms u by (simp add: mult_left_le)
  have "d * 100 * u \<le> (q + q) * 100 * u"
    using dq qu u by (intro mult_right_mono) simp_all
  also have "\<dots> = 200 * P" by (simp add: P_def)
  finally have e3: "A \<le> 200 * P" using e2 by linarith
  have eqA: "to_double (d * 100) - q * 100
               = (to_double (d * 100) - d * 100) + (d - q) * 100"
    by (simp add: algebra_simps)
  have eqC: "\<bar>(d - q) * 100\<bar> = B * 100"
    unfolding B_def by (simp only: abs_mult abs_numeral)
  have "\<bar>to_double (d * 100) - q * 100\<bar>
          = \<bar>(to_double (d * 100) - d * 100) + (d - q) * 100\<bar>"
    by (simp only: eqA)
  also have "\<dots> \<le> A + \<bar>(d - q) * 100\<bar>"
    unfolding A_def by (rule abs_triangle_ineq)
  also have "\<dots> = A + B * 100"
    by (simp only: eqC)
  also have "\<dots> \<le> 300 * P"
    using e1 e3 by linarith
  also have "\<dots> = 300 * q / 2 ^ 53" by (simp add: P_def u_def)
  finally show ?thesis by (simp add: d_def)
qed

text \<open>Rules that evaluate the rounding to a double on numerals.\<close>

lemmas double_eval = to_double_def binary_exponent_def bit_length_pos power_int_def
  power_one_over round_half_even_def Let_def

text \<open>
  The percentages of the concrete inputs below, on a machine with 8 GiB: 100000 bytes,
  3 MiB and 200 MiB.
\<close>

lemma percent_of_100000: "percent_of 100000 8589934592 = 78125 / 67108864"
proof -
  have a: "to_double (of_nat 100000 / of_nat 8589934592) = 3125 / 268435456"
    by (simp add: double_eval)
  have b: "to_double (3125 / 268435456 * 100) = 78125 / 67108864"
    by (simp add: double_eval)
  show ?thesis unfolding percent_of_def a by (rule b)
qed

lemma percent_of_3_MiB: "percent_of 3145728 8589934592 = 75 / 2048"
proof -
  have a: "to_double (of_nat 3145728 / of_nat 8589934592) = 3 / 8192"
    by (simp add: double_eval)
  have b: "to_double (3 / 8192 * 100) = 75 / 2048"
    by (simp add: double_eval)
  show ?thesis unfolding percent_of_def a by (rule b)
qed

lemma percent_of_200_MiB: "percent_of 209715200 8589934592 = 625 / 256"
proof -
  have a: "to_double (of_nat 209715200 / of_nat 8589934592) = 25 / 1024"
    by (simp add: double_eval)
  have b: "to_double (25 / 1024 * 100) = 625 / 256"
    by (simp add: double_eval)
  show ?thesis unfolding percent_of_def a by (rule b)
qed

text \<open>
  A decimal tie of the exact quotient: 2288689152 bytes of 7960657920 are 28.75 percent,
  the double computed is just below it, and rounding it gives 28.7.
\<close>

lemma percent_of_tie:
  "percent_of 2288689152 7960657920 = 8092405580431359 / 281474976710656"
proof -
  have a: "to_double (of_nat 2288689152 / of_nat 7960657920)
             = 2589569785738035 / 9007199254740992"
    by (simp add: double_eval)
  have b: "to_double (2589569785738035 / 9007199254740992 * 100)
             = 8092405580431359 / 281474976710656"
    by (simp add: double_eval)
  show ?thesis unfolding percent_of_def a by (rule b)
qed

section \<open>Facts about one sampling cycle\<close>

lemma sample_process_appended:
  assumes "sample_process s d cache p = (Appended r, cache')"
  shows "\<exists>nm rss usr cpu. os_info p = Info nm (Some rss) usr
           \<and> 0 < total_memory s
           \<and> pid r = os_pid p
           \<and> name r = take 30 (name_or_empty nm)
           \<and> username r = take 15 (strip_domain (username_or_unknown usr))
           \<and> sample_cpu d (cpu_initialized s) cache p = (Inr cpu, cache')
           \<and> cpu_percent r = py_round cpu 1
           \<and> memory_mb r = py_round (of_nat rss / 1048576) 1
           \<and> memory_percent r = py_round (percent_of rss (total_memory s)) 1
           \<and> sample_disk (disk_io_threshold_mb s) (memory_mb r) p = Inr (disk_io_mb r)"
  using assms unfolding sample_process_def
  by (auto split: info_result.splits option.splits prod.splits if_splits sum.splits
      simp: Let_def)

lemma sample_process_cache_no_sample:
  "sample_process s False cache p = (out, cache') \<Longrightarrow> cache' = cache"
  unfolding sample_process_def sample_cpu_def
  by (auto split: info_result.splits option.splits prod.splits if_splits sum.splits
      simp: Let_def)

lemma sample_process_cache_other:
  "sample_process s d cache p = (out, cache') \<Longrightarrow> q \<noteq> os_pid p \<Longrightarrow> cache' q = cache q"
  unfolding sample_process_def sample_cpu_def
  by (auto split: info_result.splits option.splits prod.splits if_splits cpu_result.splits
      sum.splits simp: Let_def)

text \<open>
  Every record of a finished loop was appended by the block of one process, run with
  some cache; on a cycle that does not sample, that cache is the one the loop started with.
\<close>

lemma sample_processes_records:
  assumes "sample_processes s d ps cache acc = (Inr rs, cache')"
  shows "\<exists>new. rs = acc @ new \<and>
           (\<forall>r\<in>set new. \<exists>p\<in>set ps. \<exists>c c'. sample_process s d c p = (Appended r, c')
               \<and> (\<not> d \<longrightarrow> c = cache))"
  using assms
proof (induction ps arbitrary: cache acc)
  case Nil
  then show ?case by simp
next
  case (Cons p ps)
  obtain out c1 where sp: "sample_process s d cache p = (out, c1)"
    by (cases "sample_process s d cache p")
  have keep: "\<not> d \<Longrightarrow> c1 = cache"
    using sp sample_process_cache_no_sample by (cases d) auto
  show ?case
  proof (cases out)
    case (Appended r)
    with Cons.prems sp have "sample_processes s d ps c1 (acc @ [r]) = (Inr rs, cache')"
      by simp
    from Cons.IH [OF this] obtain new where
      new: "rs = (acc @ [r]) @ new"
        "\<forall>x\<in>set new. \<exists>q\<in>set ps. \<exists>c c'. sample_process s d c q = (Appended x, c') \<and> (\<not> d \<longrightarrow> c = c1)"
      by blast
    have "rs = acc @ (r # new)" using new(1) by simp
    moreover have "\<forall>x\<in>set (r # new). \<exists>q\<in>set (p # ps). \<exists>c c'.
        sample_process s d c q = (Appended x, c') \<and> (\<not> d \<longrightarrow> c = cache)"
      using new(2) sp Appended keep by (auto; metis)
    ultimately show ?thesis by blast
  next
    case Skipped
    with Cons.prems sp have "sample_processes s d ps c1 acc = (Inr rs, cache')"
      by simp
    from Cons.IH [OF this] obtain new where
      new: "rs = acc @ new"
        "\<forall>x\<in>set new. \<exists>q\<in>set ps. \<exists>c c'. sample_process s d c q = (Appended x, c') \<and> (\<not> d \<longrightarrow> c = c1)"
      by blast
    have "\<forall>x\<in>set new. \<exists>q\<in>set (p # ps). \<exists>c c'.
        sample_process s d c q = (Appended x, c') \<and> (\<not> d \<longrightarrow> c = cache)"
      using new(2) keep by (auto; metis)
    with new(1) show ?thesis by blast
  next
    case (Raised e)
    with Cons.prems sp show ?thesis by simp
  qed
qed


lemma sample_processes_cache_other:
  "sample_processes s d ps cache acc = (res, cache') \<Longrightarrow> q \<notin> os_pid ` set ps \<Longrightarrow> cache' q = cache q"
proof (induction ps arbitrary: cache acc)
  case Nil
  then show ?case by simp
next
  case (Cons p ps)
  obtain out c1 where sp: "sample_process s d cache p = (out, c1)"
    by (cases "sample_process s d cache p")
  have c1: "c1 q = cache q"
    using sample_process_cache_other [OF sp] Cons.prems(2) by auto
  show ?case
  proof (cases out)
    case (Appended r)
    with Cons.prems sp have "sample_processes s d ps c1 (acc @ [r]) = (res, cache')" by simp
    from Cons.IH [OF this] Cons.prems(2) c1 show ?thesis by simp
  next
    case Skipped
    with Cons.prems sp have "sample_processes s d ps c1 acc = (res, cache')" by simp
    from Cons.IH [OF this] Cons.prems(2) c1 show ?thesis by simp
  next
    case (Raised e)
    with Cons.prems sp c1 show ?thesis by simp
  qed
qed

lemma sample_processes_cache_no_sample:
  "sample_processes s False ps cache acc = (res, cache') \<Longrightarrow> cache' = cache"
proof (induction ps arbitrary: cache acc)
  case Nil
  then show ?case by simp
next
  case (Cons p ps)
  obtain out c1 where sp: "sample_process s False cache p = (out, c1)"
    by (cases "sample_process s False cache p")
  have c1: "c1 = cache" using sample_process_cache_no_sample [OF sp] .
  show ?case
    using Cons.prems sp c1 Cons.IH by (cases out) auto
qed

lemma sample_process_cache_written:
  "sample_process s True cache p = (Appended r, cache') \<Longrightarrow>
     cache' (os_pid p) = cpu_written (cpu_initialized s) cache p"
  unfolding sample_process_def sample_cpu_def cpu_written_def
  by (auto split: info_result.splits option.splits prod.splits if_splits cpu_result.splits
      sum.splits simp: Let_def)

lemma sample_processes_cache_written:
  assumes "sample_processes s True ps cache acc = (Inr rs, cache')"
    and "distinct (map os_pid ps)"
    and "p \<in> set ps"
    and "sample_process s True c p = (Appended r, c')"
  shows "cache' (os_pid p) = cpu_written (cpu_initialized s) cache p"
  using assms(1,2,3)
proof (induction ps arbitrary: cache acc)
  case Nil
  then show ?case by simp
next
  case (Cons x xs)
  obtain out c1 where sp: "sample_process s True cache x = (out, c1)"
    by (cases "sample_process s True cache x")
  show ?case
  proof (cases "x = p")
    case True
    have same: "fst (sample_process s True cache p) = fst (sample_process s True c p)"
      unfolding sample_process_def sample_cpu_def
      by (auto split: info_result.splits option.splits prod.splits if_splits cpu_result.splits
          sum.splits simp: Let_def)
    with assms(4) sp True have out: "out = Appended r" by simp
    have w: "c1 (os_pid p) = cpu_written (cpu_initialized s) cache p"
      using sample_process_cache_written sp out True by blast
    from Cons.prems sp out have rest: "sample_processes s True xs c1 (acc @ [r]) = (Inr rs, cache')"
      by simp
    have "os_pid p \<notin> os_pid ` set xs" using Cons.prems(2) True by auto
    from sample_processes_cache_other [OF rest this] w show ?thesis by simp
  next
    case False
    with Cons.prems have pin: "p \<in> set xs" by simp
    from pin have "os_pid p \<in> os_pid ` set xs" by simp
    with Cons.prems(2) have ne: "os_pid p \<noteq> os_pid x" by auto
    have c1: "c1 (os_pid p) = cache (os_pid p)"
      using sample_process_cache_other [OF sp ne] .
    have d: "distinct (map os_pid xs)" using Cons.prems(2) by simp
    have cw: "cpu_written (cpu_initialized s) c1 p = cpu_written (cpu_initialized s) cache p"
      using c1 by (simp add: cpu_written_def split: cpu_result.splits)
    show ?thesis
    proof (cases out)
      case (Appended r')
      with Cons.prems sp have "sample_processes s True xs c1 (acc @ [r']) = (Inr rs, cache')" by simp
      from Cons.IH [OF this d pin] cw show ?thesis by simp
    next
      case Skipped
      with Cons.prems sp have "sample_processes s True xs c1 acc = (Inr rs, cache')" by simp
      from Cons.IH [OF this d pin] cw show ?thesis by simp
    next
      case (Raised e)
      with Cons.prems sp show ?thesis by simp
    qed
  qed
qed


lemma run_cycle_emits:
  assumes "run_cycle s mem procs = (s', Some (info, rs))"
  shows "\<exists>processes cache'.
           sample_processes s (cpu_sample_counter s = 0) procs (process_cache s) [] = (Inr processes, cache')
         \<and> set rs = set processes
         \<and> process_cache s' = cache' |` set (map pid processes)
         \<and> cpu_initialized s' = (cpu_initialized s \<or> cpu_sample_counter s = 0)"
  using assms unfolding run_cycle_def
  by (auto simp: Let_def split: prod.splits sum.splits if_splits)

lemma run_cycle_fields:
  "total_memory (fst (run_cycle s mem procs)) = total_memory s"
  "cpu_sample_rate (fst (run_cycle s mem procs)) = cpu_sample_rate s"
  "disk_io_threshold_mb (fst (run_cycle s mem procs)) = disk_io_threshold_mb s"
  "cpu_sample_counter (fst (run_cycle s mem procs)) = (cpu_sample_counter s + 1) mod cpu_sample_rate s"
  unfolding run_cycle_def
  by (auto simp: Let_def split: prod.splits sum.splits if_splits)

lemma run_cycles_fields:
  "total_memory (run_cycles s history) = total_memory s"
  "cpu_sample_rate (run_cycles s history) = cpu_sample_rate s"
  "disk_io_threshold_mb (run_cycles s history) = disk_io_threshold_mb s"
  by (induction s history rule: run_cycles.induct) (simp_all add: run_cycle_fields)

lemma run_cycles_counter:
  "cpu_sample_rate s = 4 \<Longrightarrow>
     cpu_sample_counter (run_cycles s history) = (cpu_sample_counter s + length history) mod 4
     \<or> (history = [] \<and> cpu_sample_counter (run_cycles s history) = cpu_sample_counter s)"
proof (induction s history rule: run_cycles.induct)
  case (1 s)
  then show ?case by simp
next
  case (2 s mem procs rest)
  have r4: "cpu_sample_rate (fst (run_cycle s mem procs)) = 4"
    using 2 by (simp add: run_cycle_fields)
  from 2(1) [OF r4] show ?case
    using 2(2) by (auto simp: run_cycle_fields mod_simps)
qed

lemma run_cycles_init:
  "total_memory (run_cycles (data_fetcher_init t) history) = t"
  "disk_io_threshold_mb (run_cycles (data_fetcher_init t) history) = 50"
  "cpu_sample_counter (run_cycles (data_fetcher_init t) history) = length history mod 4"
  using run_cycles_counter [of "data_fetcher_init t" history]
  by (auto simp: run_cycles_fields data_fetcher_init_def)


lemma run_cycle_record_origin:
  assumes cyc: "run_cycle s mem procs = (s', Some (info, rs))" and r: "r \<in> set rs"
  shows "\<exists>p\<in>set procs. \<exists>c c'.
           sample_process s (cpu_sample_counter s = 0) c p = (Appended r, c')
         \<and> (cpu_sample_counter s \<noteq> 0 \<longrightarrow> c = process_cache s)"
proof -
  from run_cycle_emits [OF cyc] obtain processes cache' where
    sp: "sample_processes s (cpu_sample_counter s = 0) procs (process_cache s) [] = (Inr processes, cache')"
    and rs: "set rs = set processes"
    by blast
  from sample_processes_records [OF sp] r rs show ?thesis by auto
qed

text \<open>The definitions that evaluate a cycle on the concrete inputs.\<close>

lemmas sampler_eval =
  py_round_def round_half_even_def Let_def sample_process_def sample_cpu_def
  sample_disk_def strip_domain_def username_or_unknown_def name_or_empty_def data_fetcher_init_def
  run_cycle_def make_mem_info_def example_memory_def example_mem_info_def small_process_def
  small_record_def big_process_def big_process_denied_def big_record_def eight_cycles_def
  restrict_map_def percent_of_100000 percent_of_3_MiB percent_of_200_MiB percent_of_tie
  no_memory_process_def aborted_start_def tie_memory_def tie_process_def tie_record_def

lemma emitted_pair: "snd x = Some y \<Longrightarrow> x = (fst x, Some y)"
  by (cases x) simp

text \<open>
  The flag \<open>_cpu_initialized\<close> is set exactly when a CPU sample cycle has completed.
\<close>

lemma run_cycles_snoc:
  "run_cycles s (history @ [(mem, procs)]) = fst (run_cycle (run_cycles s history) mem procs)"
  by (induction s history rule: run_cycles.induct) simp_all

lemma run_cycle_initialized:
  "cpu_initialized (fst (run_cycle s mem procs))
     = (cpu_initialized s \<or> (cpu_sample_counter s = 0 \<and> snd (run_cycle s mem procs) \<noteq> None))"
  unfolding run_cycle_def
  by (auto simp: Let_def split: prod.splits sum.splits if_splits)

lemma completed_sample_cycle_snoc:
  "completed_sample_cycle t (history @ [(mem, procs)])
     = (completed_sample_cycle t history
        \<or> (length history mod 4 = 0
            \<and> snd (run_cycle (run_cycles (data_fetcher_init t) history) mem procs) \<noteq> None))"
proof -
  define P where "P = (\<lambda>h k. k mod 4 = 0
        \<and> snd (run_cycle (run_cycles (data_fetcher_init t) (take k h))
                 (fst (h ! k)) (snd (h ! k))) \<noteq> None)"
  have unfold: "completed_sample_cycle t h = (\<exists>k<length h. P h k)" for h
    by (simp add: completed_sample_cycle_def P_def)
  have old: "P (history @ [(mem, procs)]) k = P history k" if "k < length history" for k
    using that by (simp add: P_def nth_append)
  have new: "P (history @ [(mem, procs)]) (length history)
               = (length history mod 4 = 0
                  \<and> snd (run_cycle (run_cycles (data_fetcher_init t) history) mem procs) \<noteq> None)"
    by (simp add: P_def)
  have "(\<exists>k<length (history @ [(mem, procs)]). P (history @ [(mem, procs)]) k)
          = ((\<exists>k<length history. P (history @ [(mem, procs)]) k)
             \<or> P (history @ [(mem, procs)]) (length history))"
    by (auto simp: less_Suc_eq)
  also have "\<dots> = ((\<exists>k<length history. P history k)
                      \<or> P (history @ [(mem, procs)]) (length history))"
    using old by auto
  finally show ?thesis
    unfolding unfold new .
qed

lemma cpu_initialized_completed:
  "cpu_initialized (run_cycles (data_fetcher_init t) history) = completed_sample_cycle t history"
proof (induction history rule: rev_induct)
  case Nil
  show ?case by (simp add: completed_sample_cycle_def data_fetcher_init_def)
next
  case (snoc c history)
  obtain mem procs where c: "c = (mem, procs)" by (cases c)
  show ?case
    unfolding c run_cycles_snoc run_cycle_initialized completed_sample_cycle_snoc
    using snoc.IH by (simp add: run_cycles_init)
qed


section \<open>Facts about filtering\<close>

lemma subseq_filter_list: "subseq (filter P xs) xs"
  by (induction xs) auto

lemma hide_system_stage_subseq: "subseq (hide_system_stage b ps) ps"
  by (simp add: hide_system_stage_def subseq_filter_list)

lemma hide_inaccessible_stage_subseq: "subseq (hide_inaccessible_stage os b ps) ps"
  by (simp add: hide_inaccessible_stage_def subseq_filter_list)

lemma search_stage_subseq: "subseq (search_stage text ps) ps"
  by (simp add: search_stage_def Let_def subseq_filter_list)

text \<open>The definitions that evaluate the window on the concrete inputs.\<close>

lemmas gui_eval =
  example_gui_def task_manager_gui_init_def example_processes_def user_record_def root_record_def
  example_files_def example_exe_def always_def example_mem_info_def example_viewport_def noon_def
  apply_search_filter_def hide_system_stage_def hide_inaccessible_stage_def search_stage_def
  is_system_process_def is_inaccessible_process_def system_users_def lower_def lower_char_def
  strip_def is_space_def Let_def

text \<open>
  A user name as the sampler stores it holds no backslash, and cutting it to 15
  characters does not change whether its lower-case form is a system account.
\<close>

lemma lower_char_backslash: "(lower_char c = CHR 0x5C) = (c = CHR 0x5C)"
  by (auto simp: lower_char_def split: option.splits if_splits)

lemma lower_backslash: "(CHR 0x5C \<in> set (lower y)) = (CHR 0x5C \<in> set y)"
proof -
  have "CHR 0x5C \<in> set (lower y) \<longleftrightarrow> (\<exists>c\<in>set y. CHR 0x5C = lower_char c)"
    by (simp add: lower_def image_iff)
  also have "\<dots> \<longleftrightarrow> (\<exists>c\<in>set y. c = CHR 0x5C)"
    using lower_char_backslash by metis
  also have "\<dots> \<longleftrightarrow> CHR 0x5C \<in> set y"
    by auto
  finally show ?thesis .
qed

lemma strip_domain_no_backslash: "CHR 0x5C \<notin> set (strip_domain u)"
proof (cases "CHR 0x5C \<in> set u")
  case True
  have "CHR 0x5C \<notin> set (takeWhile (\<lambda>c. c \<noteq> CHR 0x5C) (rev u))"
    by (auto dest: set_takeWhileD)
  with True show ?thesis by (simp add: strip_domain_def)
next
  case False
  then show ?thesis by (simp add: strip_domain_def)
qed

lemma lower_take: "lower (take n s) = take n (lower s)"
  by (simp add: lower_def take_map)

lemma take_eq_short: "length e < n \<Longrightarrow> (take n y = e) = (y = e)"
proof
  assume l: "length e < n" and t: "take n y = e"
  then have "min (length y) n < n" by (metis length_take)
  then have "length y < n" by simp
  with t show "y = e" by simp
next
  assume "length e < n" "y = e"
  then show "take n y = e" by simp
qed

lemma take_15_system_users:
  assumes "CHR 0x5C \<notin> set y"
  shows "(take 15 y \<in> system_users) = (y \<in> system_users)"
proof -
  have nb: "CHR 0x5C \<notin> set (take 15 y)"
    using assms by (auto dest: in_set_takeD)
  have a: "take 15 y \<noteq> ''nt authority'' @ [CHR 0x5C] @ ''system''"
    "take 15 y \<noteq> ''nt authority'' @ [CHR 0x5C] @ ''localservice''"
    "take 15 y \<noteq> ''nt authority'' @ [CHR 0x5C] @ ''networkservice''"
    using nb by auto
  have b: "y \<noteq> ''nt authority'' @ [CHR 0x5C] @ ''system''"
    "y \<noteq> ''nt authority'' @ [CHR 0x5C] @ ''localservice''"
    "y \<noteq> ''nt authority'' @ [CHR 0x5C] @ ''networkservice''"
    using assms by auto
  have c: "(take 15 y = ''root'') = (y = ''root'')"
    "(take 15 y = ''system'') = (y = ''system'')"
    "(take 15 y = ''local system'') = (y = ''local system'')"
    "(take 15 y = ''localservice'') = (y = ''localservice'')"
    "(take 15 y = ''networkservice'') = (y = ''networkservice'')"
    by (simp_all add: take_eq_short)
  show ?thesis
    unfolding system_users_def using a b c by simp
qed

section \<open>Facts about rendering\<close>

lemma is_substring_here: "is_substring xs (xs @ b)"
proof (cases "xs @ b")
  case Nil
  then show ?thesis by simp
next
  case (Cons a l)
  have "prefix xs (xs @ b)" by simp
  with Cons show ?thesis by simp
qed

lemma is_substring_append: "is_substring xs (a @ xs @ b)"
proof (induction a)
  case Nil
  show ?case using is_substring_here by simp
next
  case (Cons x a)
  then show ?case by simp
qed

lemma is_substring_end: "is_substring xs (a @ xs)"
  using is_substring_append [of xs a "[]"] by simp

lemma show_nat_0: "show_nat 0 = ''0''"
  by (simp add: show_nat.simps digit_char_def)

lemma format_1f_small:
  assumes "0 \<le> x" "x < 1 / 20"
  shows "format_1f x = ''0.0''"
proof -
  have a: "\<bar>x\<bar> * 10 < 1 / 2" "0 \<le> \<bar>x\<bar> * 10" using assms by simp_all
  then have f: "\<lfloor>\<bar>x\<bar> * 10\<rfloor> = 0" by (simp add: floor_eq_iff)
  have "round_half_even (\<bar>x\<bar> * 10) = 0"
    using a f by (simp add: round_half_even_def Let_def)
  then show ?thesis
    using assms by (simp add: format_1f_def show_nat_0 digit_char_def)
qed

lemma render_rows_length [simp]:
  "length (render_rows fr sc lo hi prev row ps tbl) = length tbl"
  by (induction ps arbitrary: row tbl) auto

lemma render_rows_entries:
  "r < length tbl \<Longrightarrow>
     render_rows fr sc lo hi prev row ps tbl ! r = tbl ! r
     \<or> (row \<le> r \<and> r < row + length ps
         \<and> render_rows fr sc lo hi prev row ps tbl ! r = Some (render_row_items (ps ! (r - row))))"
proof (induction ps arbitrary: row tbl)
  case Nil
  then show ?case by simp
next
  case (Cons p ps)
  let ?t = "tbl[row := Some (render_row_items p)]"
  have skip: ?case if eq: "render_rows fr sc lo hi prev row (p # ps) tbl
                        = render_rows fr sc lo hi prev (Suc row) ps tbl"
  proof -
    from Cons.IH [OF Cons.prems, of "Suc row"] show ?thesis
      unfolding eq by (auto simp: Suc_diff_le)
  qed
  have paint: ?case if eq: "render_rows fr sc lo hi prev row (p # ps) tbl
                        = render_rows fr sc lo hi prev (Suc row) ps ?t"
  proof -
    have len: "r < length ?t" using Cons.prems by simp
    from Cons.IH [OF len, of "Suc row"] show ?thesis
      unfolding eq using Cons.prems
      by (cases "r = row") (auto simp: Suc_diff_le)
  qed
  define painted where
    "painted \<longleftrightarrow> \<not> (int row < lo \<or> hi < int row)
        \<and> \<not> (\<not> fr \<and> row < length prev \<and> prev ! row = p) \<and> \<not> sc"
  have eq1: "render_rows fr sc lo hi prev row (p # ps) tbl
               = render_rows fr sc lo hi prev (Suc row) ps tbl" if "\<not> painted"
    using that by (auto simp: painted_def)
  have eq2: "render_rows fr sc lo hi prev row (p # ps) tbl
               = render_rows fr sc lo hi prev (Suc row) ps ?t" if painted
    using that by (auto simp: painted_def)
  show ?case
  proof (cases painted)
    case True
    from paint [OF eq2 [OF True]] show ?thesis .
  next
    case False
    from skip [OF eq1 [OF False]] show ?thesis .
  qed
qed

lemma bg_fill_batch_length [simp]:
  "length (snd (bg_fill_batch k pending tbl)) = length tbl"
  by (induction k pending tbl rule: bg_fill_batch.induct) auto

lemma bg_fill_batch_entries:
  "r < length tbl \<Longrightarrow>
     snd (bg_fill_batch k pending tbl) ! r = tbl ! r
     \<or> (\<exists>proc. (r, proc) \<in> set pending
           \<and> snd (bg_fill_batch k pending tbl) ! r = Some (bg_fill_row_items proc))"
proof (induction k pending tbl rule: bg_fill_batch.induct)
  case (1 pending tbl)
  then show ?case by simp
next
  case (2 k tbl)
  then show ?case by simp
next
  case (3 k row proc pending tbl)
  show ?case
  proof (cases "length tbl \<le> row")
    case True
    with 3 show ?thesis by auto
  next
    case False
    let ?t = "tbl[row := Some (bg_fill_row_items proc)]"
    have len: "r < length ?t" using 3(3) by simp
    from 3(2) [OF False len] False show ?thesis
      by (cases "r = row") auto
  qed
qed

section \<open>The filter pipeline\<close>

text \<open>
  Claim C1. With a snapshot in the cache, \<open>_apply_search_filter\<close> schedules the list
  \<open>p3\<close> for rendering, where \<open>p1\<close> is the cached list after the system filter (when
  its box is checked), \<open>p2\<close> is \<open>p1\<close> after the inaccessible filter (when its box is
  checked) and \<open>p3\<close> is \<open>p2\<close> after the search (when the stripped text is not empty):
  the order is fixed and each stage keeps a subsequence of the one before. The
  scheduled list is never longer than the cached list, and the total scheduled with it
  is the length of the cached list.
\<close>

theorem apply_search_filter_pipeline:
  assumes "last_mem_info g = Some m"
  shows "\<exists>p1 p2 p3.
           p1 = (if hide_system_checkbox g
                 then [p \<leftarrow> cached_processes g. \<not> is_system_process p]
                 else cached_processes g)
         \<and> p2 = (if hide_inaccessible_checkbox g
                 then [p \<leftarrow> p1. \<not> is_inaccessible_process os p]
                 else p1)
         \<and> p3 = (if lower (strip (search_input g)) \<noteq> []
                 then [p \<leftarrow> p2. is_substring (lower (strip (search_input g))) (lower (name p))]
                 else p2)
         \<and> subseq p1 (cached_processes g) \<and> subseq p2 p1 \<and> subseq p3 p2
         \<and> pending_render_processes (apply_search_filter os g) = Some p3
         \<and> length p3 \<le> length (cached_processes g)
         \<and> pending_total_processes (apply_search_filter os g) = length (cached_processes g)"
proof -
  define p1 where "p1 = hide_system_stage (hide_system_checkbox g) (cached_processes g)"
  define p2 where "p2 = hide_inaccessible_stage os (hide_inaccessible_checkbox g) p1"
  define p3 where "p3 = search_stage (search_input g) p2"
  have s1: "subseq p1 (cached_processes g)"
    unfolding p1_def by (rule hide_system_stage_subseq)
  have s2: "subseq p2 p1"
    unfolding p2_def by (rule hide_inaccessible_stage_subseq)
  have s3: "subseq p3 p2"
    unfolding p3_def by (rule search_stage_subseq)
  have "subseq p3 (cached_processes g)"
    using s1 s2 s3 by (meson subseq_order.order_trans)
  then have len: "length p3 \<le> length (cached_processes g)"
    by (rule list_emb_length)
  have pend: "pending_render_processes (apply_search_filter os g) = Some p3"
    using assms by (simp add: apply_search_filter_def Let_def p1_def p2_def p3_def)
  have tot: "pending_total_processes (apply_search_filter os g) = length (cached_processes g)"
    using assms by (simp add: apply_search_filter_def Let_def)
  have e1: "p1 = (if hide_system_checkbox g
                 then [p \<leftarrow> cached_processes g. \<not> is_system_process p]
                 else cached_processes g)"
    by (simp add: p1_def hide_system_stage_def)
  have e2: "p2 = (if hide_inaccessible_checkbox g
                 then [p \<leftarrow> p1. \<not> is_inaccessible_process os p]
                 else p1)"
    by (simp add: p2_def hide_inaccessible_stage_def)
  have e3: "p3 = (if lower (strip (search_input g)) \<noteq> []
                 then [p \<leftarrow> p2. is_substring (lower (strip (search_input g))) (lower (name p))]
                 else p2)"
    by (simp add: p3_def search_stage_def Let_def)
  show ?thesis
    by (intro exI [of _ p1] exI [of _ p2] exI [of _ p3] conjI) (fact e1 e2 e3 s1 s2 s3 pend len tot)+
qed

text \<open>
  Both boxes checked and \<open>Chrome\<close> typed with blanks around it: two of the four cached
  processes are scheduled, and the total is 4.
\<close>

theorem apply_search_filter_pipeline_witness:
  "last_mem_info (example_gui True True ''  Chrome '') = Some example_mem_info
   \<and> pending_render_processes
         (apply_search_filter example_files (example_gui True True ''  Chrome ''))
       = Some [user_record 2001 ''chrome.exe'' 300, user_record 2003 ''Chrome Helper'' 80]
   \<and> length [user_record 2001 ''chrome.exe'' 300, user_record 2003 ''Chrome Helper'' 80]
       \<le> length (cached_processes (example_gui True True ''  Chrome ''))
   \<and> pending_total_processes
         (apply_search_filter example_files (example_gui True True ''  Chrome ''))
       = 4"
proof -
  let ?g = "example_gui True True ''  Chrome ''"
  have m: "last_mem_info ?g = Some example_mem_info"
    by (simp add: example_gui_def)
  have c: "length (cached_processes ?g) = 4"
    by (simp add: example_gui_def example_processes_def)
  have e: "pending_render_processes (apply_search_filter example_files ?g)
             = Some [user_record 2001 ''chrome.exe'' 300, user_record 2003 ''Chrome Helper'' 80]"
    by (simp add: gui_eval)
  from apply_search_filter_pipeline [OF m, of example_files] obtain p3 where
    "pending_render_processes (apply_search_filter example_files ?g) = Some p3"
    "length p3 \<le> length (cached_processes ?g)"
    "pending_total_processes (apply_search_filter example_files ?g) = length (cached_processes ?g)"
    by blast
  with m c e show ?thesis by simp
qed

section \<open>The sampler's records\<close>

text \<open>
  Claim C3 (amended). The record of a process holds \<open>memory_mb = round(rss / 1048576, 1)\<close>
  and \<open>memory_percent = round(x, 1)\<close>, both from the same resident size \<open>rss\<close> in bytes,
  where \<open>x\<close> is the double that \<open>rss / total_memory * 100\<close> evaluates to and
  \<open>total_memory\<close> is the value read once when the sampler was created and kept by every
  cycle after it. The double \<open>x\<close> is within \<open>300 * (rss / total_memory) / 2 ^ 53\<close> of the
  exact percentage. The two fields are rounded separately, so \<open>memory_percent\<close> equals
  \<open>memory_mb * 1048576 / total_memory * 100\<close> only up to the roundings: the difference
  is at most \<open>0.05 + 5242880 / total_memory + 300 * (rss / total_memory) / 2 ^ 53\<close>.
\<close>

theorem run_cycle_memory_percent:
  assumes reach: "s = run_cycles (data_fetcher_init vm_total_at_start) history"
    and cyc: "run_cycle s mem procs = (s', Some (info, rs))"
    and r: "r \<in> set rs"
  shows "total_memory s = vm_total_at_start \<and> total_memory s' = vm_total_at_start
       \<and> 0 < vm_total_at_start
       \<and> (\<exists>p\<in>set procs. \<exists>nm rss usr.
             os_pid p = pid r \<and> os_info p = Info nm (Some rss) usr
           \<and> memory_mb r = py_round (of_nat rss / 1048576) 1
           \<and> memory_percent r = py_round (percent_of rss vm_total_at_start) 1
           \<and> \<bar>percent_of rss vm_total_at_start - of_nat rss / of_nat vm_total_at_start * 100\<bar>
                \<le> 300 * (of_nat rss / of_nat vm_total_at_start) / 2 ^ 53
           \<and> \<bar>memory_percent r - memory_mb r * 1048576 / of_nat vm_total_at_start * 100\<bar>
                \<le> 1 / 20 + 5242880 / of_nat vm_total_at_start
                    + 300 * (of_nat rss / of_nat vm_total_at_start) / 2 ^ 53)"
proof -
  have t: "total_memory s = vm_total_at_start"
    using reach by (simp add: run_cycles_init)
  have t': "total_memory s' = vm_total_at_start"
    using run_cycle_fields(1) [of s mem procs] cyc t by simp
  from run_cycle_record_origin [OF cyc r] obtain p c c' where
    p: "p \<in> set procs" and sp: "sample_process s (cpu_sample_counter s = 0) c p = (Appended r, c')"
    by blast
  from sample_process_appended [OF sp] obtain nm rss usr where
    info: "os_info p = Info nm (Some rss) usr" and pos: "0 < total_memory s"
    and pidr: "pid r = os_pid p"
    and mb: "memory_mb r = py_round (of_nat rss / 1048576) 1"
    and pc: "memory_percent r = py_round (percent_of rss (total_memory s)) 1"
    by blast
  define T where "T = (of_nat vm_total_at_start :: real)"
  define x where "x = (of_nat rss :: real)"
  define F where "F = 300 * (x / T) / 2 ^ 53"
  define D where "D = percent_of rss vm_total_at_start"
  have Tpos: "0 < T" using pos t by (simp add: T_def)
  have q: "0 \<le> x / T" using Tpos by (simp add: x_def)
  have e0: "\<bar>D - x / T * 100\<bar> \<le> F"
    using percent_double_err [OF q] by (simp add: D_def F_def percent_of_def x_def T_def)
  have e1: "\<bar>memory_percent r - D\<bar> \<le> 1 / 20"
    using py_round_1_err [of D] pc t by (simp add: D_def)
  have e2: "\<bar>memory_mb r - x / 1048576\<bar> \<le> 1 / 20"
    using py_round_1_err [of "x / 1048576"] mb by (simp add: x_def)
  have eq: "memory_mb r * 1048576 / T * 100 - x / T * 100
              = (memory_mb r - x / 1048576) * (104857600 / T)"
    using Tpos by (simp add: field_simps)
  have k: "\<bar>104857600 / T\<bar> = 104857600 / T"
    using Tpos by simp
  have "\<bar>memory_mb r * 1048576 / T * 100 - x / T * 100\<bar>
          = \<bar>memory_mb r - x / 1048576\<bar> * (104857600 / T)"
    by (simp only: eq abs_mult k)
  also have "\<dots> \<le> (1 / 20) * (104857600 / T)"
    using e2 Tpos by (intro mult_right_mono) simp_all
  also have "\<dots> = 5242880 / T" by simp
  finally have e3: "\<bar>memory_mb r * 1048576 / T * 100 - x / T * 100\<bar> \<le> 5242880 / T" .
  have bound: "\<bar>memory_percent r - memory_mb r * 1048576 / T * 100\<bar>
                 \<le> 1 / 20 + 5242880 / T + F"
    using e0 e1 e3 by linarith
  have pp: "os_pid p = pid r" using pidr by simp
  have pc': "memory_percent r = py_round (percent_of rss vm_total_at_start) 1"
    using pc t by simp
  have e0': "\<bar>percent_of rss vm_total_at_start - of_nat rss / of_nat vm_total_at_start * 100\<bar>
                \<le> 300 * (of_nat rss / of_nat vm_total_at_start) / 2 ^ 53"
    using e0 by (simp add: D_def F_def x_def T_def)
  have bound': "\<bar>memory_percent r - memory_mb r * 1048576 / of_nat vm_total_at_start * 100\<bar>
                \<le> 1 / 20 + 5242880 / of_nat vm_total_at_start
                    + 300 * (of_nat rss / of_nat vm_total_at_start) / 2 ^ 53"
    using bound by (simp add: F_def x_def T_def)
  have tpos: "0 < vm_total_at_start" using pos t by simp
  have ex: "\<exists>p\<in>set procs. \<exists>nm rss usr.
             os_pid p = pid r \<and> os_info p = Info nm (Some rss) usr
           \<and> memory_mb r = py_round (of_nat rss / 1048576) 1
           \<and> memory_percent r = py_round (percent_of rss vm_total_at_start) 1
           \<and> \<bar>percent_of rss vm_total_at_start - of_nat rss / of_nat vm_total_at_start * 100\<bar>
                \<le> 300 * (of_nat rss / of_nat vm_total_at_start) / 2 ^ 53
           \<and> \<bar>memory_percent r - memory_mb r * 1048576 / of_nat vm_total_at_start * 100\<bar>
                \<le> 1 / 20 + 5242880 / of_nat vm_total_at_start
                    + 300 * (of_nat rss / of_nat vm_total_at_start) / 2 ^ 53"
    by (intro bexI [of _ p] exI [of _ nm] exI [of _ rss] exI [of _ usr] conjI)
       (fact pp info mb pc' e0' bound' p)+
  from t t' tpos ex show ?thesis by (intro conjI)
qed

text \<open>
  Two cycles at work. On a machine with 8 GiB the shell of 100000 bytes is emitted with
  \<open>memory_mb = 0.1\<close> and \<open>memory_percent = 0.0\<close>. On a machine with 7960657920 bytes a
  process of 2288689152 bytes holds exactly 28.75 percent; the double computed lies
  just below, and the record shows 28.7.
\<close>

theorem run_cycle_memory_percent_witness:
  "snd (run_cycle (data_fetcher_init 8589934592) example_memory [small_process])
     = Some (example_mem_info, [small_record])
   \<and> total_memory (fst (run_cycle (data_fetcher_init 8589934592) example_memory [small_process]))
       = 8589934592
   \<and> memory_percent small_record = py_round (percent_of 100000 8589934592) 1
   \<and> \<bar>memory_percent small_record - memory_mb small_record * 1048576 / 8589934592 * 100\<bar>
       \<le> 1 / 20 + 5242880 / 8589934592 + 300 * (100000 / 8589934592) / 2 ^ 53
   \<and> snd (run_cycle (data_fetcher_init 7960657920) tie_memory [tie_process])
       = Some (make_mem_info tie_memory, [tie_record])
   \<and> memory_percent tie_record = py_round (percent_of 2288689152 7960657920) 1
   \<and> memory_percent tie_record = 287 / 10"
proof -
  let ?s = "data_fetcher_init 8589934592"
  have e: "snd (run_cycle ?s example_memory [small_process]) = Some (example_mem_info, [small_record])"
    by (simp add: sampler_eval)
  have reach: "?s = run_cycles (data_fetcher_init 8589934592) []" by simp
  have r: "small_record \<in> set [small_record]" by simp
  have i: "os_info small_process = Info (Some ''sh'') (Some 100000) (Some ''alice'')"
    by (simp add: small_process_def)
  from run_cycle_memory_percent [OF reach emitted_pair [OF e] r] i
  have a: "total_memory (fst (run_cycle ?s example_memory [small_process])) = 8589934592
       \<and> memory_percent small_record = py_round (percent_of 100000 8589934592) 1
       \<and> \<bar>memory_percent small_record - memory_mb small_record * 1048576 / 8589934592 * 100\<bar>
           \<le> 1 / 20 + 5242880 / 8589934592 + 300 * (100000 / 8589934592) / 2 ^ 53"
    by auto
  let ?t = "data_fetcher_init 7960657920"
  have e': "snd (run_cycle ?t tie_memory [tie_process]) = Some (make_mem_info tie_memory, [tie_record])"
    by (simp add: sampler_eval)
  have reach': "?t = run_cycles (data_fetcher_init 7960657920) []" by simp
  have r': "tie_record \<in> set [tie_record]" by simp
  have i': "os_info tie_process = Info (Some ''vm'') (Some 2288689152) (Some ''carol'')"
    by (simp add: tie_process_def)
  from run_cycle_memory_percent [OF reach' emitted_pair [OF e'] r'] i'
  have b: "memory_percent tie_record = py_round (percent_of 2288689152 7960657920) 1"
    by auto
  have c: "memory_percent tie_record = 287 / 10"
    by (simp add: tie_record_def)
  from a have a1: "total_memory (fst (run_cycle ?s example_memory [small_process])) = 8589934592"
    and a2: "memory_percent small_record = py_round (percent_of 100000 8589934592) 1"
    and a3: "\<bar>memory_percent small_record - memory_mb small_record * 1048576 / 8589934592 * 100\<bar>
           \<le> 1 / 20 + 5242880 / 8589934592 + 300 * (100000 / 8589934592) / 2 ^ 53"
    by blast+
  show ?thesis
    by (intro conjI) (fact e a1 a2 a3 e' b c)+
qed

text \<open>
  The equation as the specification has it fails for the record of the shell: its
  \<open>memory_percent\<close> is 0.0, while \<open>memory_mb * 1048576 / total_memory * 100\<close> is not.
\<close>

theorem memory_percent_formula_counterexample:
  "snd (run_cycle (data_fetcher_init 8589934592) example_memory [small_process])
     = Some (example_mem_info, [small_record])
   \<and> memory_percent small_record \<noteq> memory_mb small_record * 1048576 / 8589934592 * 100"
  by (simp add: sampler_eval)

text \<open>
  Claim C4 (amended). The counter of the duty cycle is the number of cycles run so far
  modulo 4, a cycle samples the CPU when it is 0, and the flag \<open>_cpu_initialized\<close> is
  set exactly when a CPU sample cycle has completed before (a sample cycle that raised
  before its end does not count). For every record a cycle emits, provided the
  operating system lists each process id at most once in that cycle:
  \<^item> on a CPU sample cycle before any has completed, the reported CPU percent is 0.0
    whatever the measurement, the cache entry of a process whose counter could be read
    is set to 0.0, and with this cycle one has completed;
  \<^item> on a CPU sample cycle after one has completed, a process whose measurement
    succeeds reports that measurement rounded to one decimal and has it stored in the
    cache; a process whose measurement raises access-denied or no-such-process reports
    0.0 and keeps its cache entry as it was;
  \<^item> on any other cycle, the process reports its cached value rounded to one decimal,
    or 0.0 when it has none, and the cache entry stays as it was.
\<close>

theorem run_cycle_cpu_duty_cycle:
  assumes reach: "s = run_cycles (data_fetcher_init vm_total_at_start) history"
    and cyc: "run_cycle s mem procs = (s', Some (info, rs))"
    and r: "r \<in> set rs"
    and dist: "distinct (map os_pid procs)"
  shows "cpu_sample_rate s = 4 \<and> cpu_sample_counter s = length history mod 4
       \<and> cpu_initialized s = completed_sample_cycle vm_total_at_start history
       \<and> (\<exists>p\<in>set procs. os_pid p = pid r \<and>
            (if length history mod 4 = 0 then
               (if \<not> completed_sample_cycle vm_total_at_start history then
                  cpu_percent r = 0
                  \<and> completed_sample_cycle vm_total_at_start (history @ [(mem, procs)])
                  \<and> (case os_cpu p of
                        CpuPercent v \<Rightarrow> process_cache s' (pid r) = Some 0
                      | CpuAccessDenied \<Rightarrow> process_cache s' (pid r) = process_cache s (pid r)
                      | CpuNoSuchProcess \<Rightarrow> process_cache s' (pid r) = process_cache s (pid r)
                      | CpuOtherException \<Rightarrow> False)
                else
                  (case os_cpu p of
                     CpuPercent v \<Rightarrow>
                       cpu_percent r = py_round v 1 \<and> process_cache s' (pid r) = Some v
                   | CpuAccessDenied \<Rightarrow>
                       cpu_percent r = 0 \<and> process_cache s' (pid r) = process_cache s (pid r)
                   | CpuNoSuchProcess \<Rightarrow>
                       cpu_percent r = 0 \<and> process_cache s' (pid r) = process_cache s (pid r)
                   | CpuOtherException \<Rightarrow> False))
             else
               cpu_percent r
                 = py_round (case process_cache s (pid r) of Some v \<Rightarrow> v | None \<Rightarrow> 0) 1
               \<and> process_cache s' (pid r) = process_cache s (pid r)))"
proof -
  have rate: "cpu_sample_rate s = 4"
    using reach by (simp add: run_cycles_fields data_fetcher_init_def)
  have cnt: "cpu_sample_counter s = length history mod 4"
    using reach by (simp add: run_cycles_init)
  have ini: "cpu_initialized s = completed_sample_cycle vm_total_at_start history"
    using reach by (simp add: cpu_initialized_completed)
  have emitted: "snd (run_cycle (run_cycles (data_fetcher_init vm_total_at_start) history) mem procs)
                   \<noteq> None"
    using cyc reach by simp
  have compl: "completed_sample_cycle vm_total_at_start (history @ [(mem, procs)])"
    if "length history mod 4 = 0"
    using that emitted by (simp add: completed_sample_cycle_snoc)
  from run_cycle_emits [OF cyc] obtain processes where
    "\<exists>cache'.
       sample_processes s (cpu_sample_counter s = 0) procs (process_cache s) [] = (Inr processes, cache')
     \<and> set rs = set processes
     \<and> process_cache s' = cache' |` set (map pid processes)
     \<and> cpu_initialized s' = (cpu_initialized s \<or> cpu_sample_counter s = 0)" ..
  then obtain cache' where em:
    "sample_processes s (cpu_sample_counter s = 0) procs (process_cache s) [] = (Inr processes, cache')
     \<and> set rs = set processes
     \<and> process_cache s' = cache' |` set (map pid processes)
     \<and> cpu_initialized s' = (cpu_initialized s \<or> cpu_sample_counter s = 0)" ..
  from em have sps: "sample_processes s (cpu_sample_counter s = 0) procs (process_cache s) [] = (Inr processes, cache')"
    by (rule conjunct1)
  from em have rs: "set rs = set processes" by simp
  from em have pc': "process_cache s' = cache' |` set (map pid processes)" by simp
  from run_cycle_record_origin [OF cyc r] obtain p c c' where
    p: "p \<in> set procs"
    and sp: "sample_process s (cpu_sample_counter s = 0) c p = (Appended r, c')"
    and c: "cpu_sample_counter s \<noteq> 0 \<longrightarrow> c = process_cache s"
    by blast
  from sample_process_appended [OF sp] obtain cpu where
    pidr: "pid r = os_pid p"
    and scpu: "sample_cpu (cpu_sample_counter s = 0) (cpu_initialized s) c p = (Inr cpu, c')"
    and cpu: "cpu_percent r = py_round cpu 1"
    by blast
  have kept: "process_cache s' (pid r) = cache' (pid r)"
    using pc' r rs by (simp add: restrict_map_def)
  have body:
    "if length history mod 4 = 0 then
       (if \<not> completed_sample_cycle vm_total_at_start history then
          cpu_percent r = 0
          \<and> completed_sample_cycle vm_total_at_start (history @ [(mem, procs)])
          \<and> (case os_cpu p of
                CpuPercent v \<Rightarrow> process_cache s' (pid r) = Some 0
              | CpuAccessDenied \<Rightarrow> process_cache s' (pid r) = process_cache s (pid r)
              | CpuNoSuchProcess \<Rightarrow> process_cache s' (pid r) = process_cache s (pid r)
              | CpuOtherException \<Rightarrow> False)
        else
          (case os_cpu p of
             CpuPercent v \<Rightarrow>
               cpu_percent r = py_round v 1 \<and> process_cache s' (pid r) = Some v
           | CpuAccessDenied \<Rightarrow>
               cpu_percent r = 0 \<and> process_cache s' (pid r) = process_cache s (pid r)
           | CpuNoSuchProcess \<Rightarrow>
               cpu_percent r = 0 \<and> process_cache s' (pid r) = process_cache s (pid r)
           | CpuOtherException \<Rightarrow> False))
     else
       cpu_percent r
         = py_round (case process_cache s (pid r) of Some v \<Rightarrow> v | None \<Rightarrow> 0) 1
       \<and> process_cache s' (pid r) = process_cache s (pid r)"
  proof (cases "cpu_sample_counter s = 0")
    case True
    from sps True have sps': "sample_processes s True procs (process_cache s) [] = (Inr processes, cache')"
      by simp
    from sp True have sp': "sample_process s True c p = (Appended r, c')" by simp
    have w: "cache' (os_pid p) = cpu_written (cpu_initialized s) (process_cache s) p"
      using sample_processes_cache_written [OF sps' dist p sp'] .
    have m0: "length history mod 4 = 0" using True cnt by simp
    show ?thesis
      using True m0 cpu scpu w kept pidr ini compl [OF m0]
      by (auto simp: sample_cpu_def cpu_written_def split: cpu_result.splits if_splits)
  next
    case False
    with c have ceq: "c = process_cache s" by simp
    from sps False have "sample_processes s False procs (process_cache s) [] = (Inr processes, cache')"
      by simp
    from sample_processes_cache_no_sample [OF this] have "cache' = process_cache s" .
    with False cnt cpu scpu ceq kept pidr show ?thesis
      by (auto simp: sample_cpu_def)
  qed
  have pp: "os_pid p = pid r" using pidr by simp
  show ?thesis
    by (intro conjI bexI [of _ p]) (fact rate cnt ini pp body p)+
qed

text \<open>
  After eight cycles the counter is back at 0 and a sample cycle has completed; the
  database then reports its measurement of 7.5, and the cache holds it. After the
  start whose first cycle raised, the counter is at 0 again but no sample cycle has
  completed: the database is measured at 7.5 and reports 0.0.
\<close>

theorem run_cycle_cpu_duty_cycle_witness:
  "snd (run_cycle (run_cycles (data_fetcher_init 8589934592) eight_cycles) example_memory [big_process])
     = Some (example_mem_info, [big_record (15 / 2) 3])
   \<and> distinct (map os_pid [big_process])
   \<and> cpu_sample_counter (run_cycles (data_fetcher_init 8589934592) eight_cycles)
       = length eight_cycles mod 4
   \<and> completed_sample_cycle 8589934592 eight_cycles
   \<and> cpu_percent (big_record (15 / 2) 3) = py_round (15 / 2) 1
   \<and> process_cache (fst (run_cycle (run_cycles (data_fetcher_init 8589934592) eight_cycles)
                            example_memory [big_process])) 7
       = Some (15 / 2)
   \<and> snd (run_cycle (run_cycles (data_fetcher_init 8589934592) [(example_memory, [no_memory_process])])
            example_memory [big_process])
       = Some (example_mem_info, [big_record 0 3])
   \<and> snd (run_cycle (data_fetcher_init 8589934592) example_memory [no_memory_process]) = None
   \<and> length aborted_start mod 4 = 0
   \<and> \<not> completed_sample_cycle 8589934592 aborted_start
   \<and> snd (run_cycle (run_cycles (data_fetcher_init 8589934592) aborted_start) example_memory
            [big_process])
       = Some (example_mem_info, [big_record 0 3])
   \<and> os_cpu big_process = CpuPercent (15 / 2)
   \<and> cpu_percent (big_record 0 3) = 0
   \<and> completed_sample_cycle 8589934592 (aborted_start @ [(example_memory, [big_process])])"
proof -
  let ?s = "run_cycles (data_fetcher_init 8589934592) eight_cycles"
  let ?t = "run_cycles (data_fetcher_init 8589934592) aborted_start"
  have e: "snd (run_cycle ?s example_memory [big_process])
             = Some (example_mem_info, [big_record (15 / 2) 3])"
    by (simp add: sampler_eval)
  have reach: "?s = run_cycles (data_fetcher_init 8589934592) eight_cycles" by simp
  have r: "big_record (15 / 2) 3 \<in> set [big_record (15 / 2) 3]" by simp
  have d: "distinct (map os_pid [big_process])" by simp
  have l8: "length eight_cycles mod 4 = 0" by (simp add: eight_cycles_def)
  have i: "cpu_initialized ?s" by (simp add: sampler_eval)
  have pr: "pid (big_record (15 / 2) 3) = 7" and cp: "os_cpu big_process = CpuPercent (15 / 2)"
    by (simp_all add: big_record_def big_process_def)
  note t = run_cycle_cpu_duty_cycle [OF reach emitted_pair [OF e] r d]
  from t have a1: "cpu_sample_counter ?s = length eight_cycles mod 4"
    by (rule conjunct1 [OF conjunct2])
  from t i have a2: "completed_sample_cycle 8589934592 eight_cycles" by simp
  from t [THEN conjunct2, THEN conjunct2, THEN conjunct2]
  have a: "cpu_percent (big_record (15 / 2) 3) = py_round (15 / 2) 1
      \<and> process_cache (fst (run_cycle ?s example_memory [big_process]))
           (pid (big_record (15 / 2) 3)) = Some (15 / 2)"
    unfolding list.set bex_simps(1) if_P [OF l8]
    using a2 cp by simp
  from a have a3: "cpu_percent (big_record (15 / 2) 3) = py_round (15 / 2) 1" by simp
  from a pr have a4: "process_cache (fst (run_cycle ?s example_memory [big_process])) 7
      = Some (15 / 2)" by simp
  have e1: "snd (run_cycle (run_cycles (data_fetcher_init 8589934592)
                             [(example_memory, [no_memory_process])])
                  example_memory [big_process])
       = Some (example_mem_info, [big_record 0 3])"
    by (simp add: sampler_eval)
  have e0: "snd (run_cycle (data_fetcher_init 8589934592) example_memory [no_memory_process])
       = None"
    by (simp add: sampler_eval)
  have e': "snd (run_cycle ?t example_memory [big_process])
             = Some (example_mem_info, [big_record 0 3])"
    by (simp add: sampler_eval)
  have reach': "?t = run_cycles (data_fetcher_init 8589934592) aborted_start" by simp
  have r': "big_record 0 3 \<in> set [big_record 0 3]" by simp
  have l4: "length aborted_start mod 4 = 0" by (simp add: aborted_start_def)
  have ni: "\<not> cpu_initialized ?t" by (simp add: sampler_eval)
  have z: "cpu_percent (big_record 0 3) = 0" by (simp add: big_record_def)
  note u = run_cycle_cpu_duty_cycle [OF reach' emitted_pair [OF e'] r' d]
  from u ni have b1: "\<not> completed_sample_cycle 8589934592 aborted_start" by simp
  from u [THEN conjunct2, THEN conjunct2, THEN conjunct2]
  have b2: "completed_sample_cycle 8589934592 (aborted_start @ [(example_memory, [big_process])])"
    unfolding list.set bex_simps(1) if_P [OF l4]
    using b1 by simp
  show ?thesis
    by (intro conjI) (fact e d a1 a2 a3 a4 e1 e0 l4 b1 e' cp z b2)+
qed

text \<open>
  A sample cycle after one has completed, when the CPU times of the database may not
  be read: there is no measurement, the record reports 0.0, and the cache still holds
  the 7.5 of the sample cycle before.
\<close>

theorem cpu_duty_cycle_counterexample:
  "cpu_sample_counter (run_cycles (data_fetcher_init 8589934592) eight_cycles) = 0
   \<and> cpu_initialized (run_cycles (data_fetcher_init 8589934592) eight_cycles)
   \<and> process_cache (run_cycles (data_fetcher_init 8589934592) eight_cycles) 7 = Some (15 / 2)
   \<and> os_cpu big_process_denied = CpuAccessDenied
   \<and> snd (run_cycle (run_cycles (data_fetcher_init 8589934592) eight_cycles) example_memory
            [big_process_denied])
       = Some (example_mem_info, [big_record 0 0])
   \<and> cpu_percent (big_record 0 0) = 0
   \<and> process_cache (fst (run_cycle (run_cycles (data_fetcher_init 8589934592) eight_cycles)
                            example_memory [big_process_denied])) 7
       = Some (15 / 2)"
  by (simp add: sampler_eval)



text \<open>
  Claim C6. For a record the sampler built from a process, \<open>is_system_process\<close> holds
  exactly when the process id is 0, 1 or 2, or the owner's name, with the domain in
  front of the last backslash dropped (as the sampler does) and in lower case, is one
  of the names in \<open>system_users\<close>. A process of \<open>root\<close> with id 500 is a system process:
  the filter never schedules it when the system box is checked, and with the box
  unchecked it schedules it exactly when it is in the cache and the other two filters
  let it pass.
\<close>

theorem is_system_process_of_sampled:
  assumes "sample_process s d c p = (Appended r, c')"
    and "os_info p = Info nm mem usr"
  shows "(is_system_process r
            \<longleftrightarrow> os_pid p \<in> {0, 1, 2}
                \<or> lower (strip_domain (username_or_unknown usr)) \<in> system_users)
       \<and> (\<forall>q. username q = ''root'' \<and> pid q = 500 \<longrightarrow>
            is_system_process q
          \<and> (\<forall>os g m. last_mem_info g = Some m \<longrightarrow>
                (\<exists>ps. pending_render_processes (apply_search_filter os g) = Some ps
                  \<and> (hide_system_checkbox g \<longrightarrow> q \<notin> set ps)
                  \<and> (\<not> hide_system_checkbox g \<longrightarrow>
                       (q \<in> set ps \<longleftrightarrow>
                          q \<in> set (cached_processes g)
                        \<and> \<not> (hide_inaccessible_checkbox g \<and> is_inaccessible_process os q)
                        \<and> (lower (strip (search_input g)) = []
                            \<or> is_substring (lower (strip (search_input g))) (lower (name q))))))))"
proof -
  from sample_process_appended [OF assms(1)] assms(2) have
    pidr: "pid r = os_pid p"
    and usr: "username r = take 15 (strip_domain (username_or_unknown usr))"
    by auto
  let ?y = "lower (strip_domain (username_or_unknown usr))"
  have nb: "CHR 0x5C \<notin> set ?y"
    by (simp add: lower_backslash strip_domain_no_backslash)
  have "lower (username r) = take 15 ?y"
    using usr by (simp add: lower_take)
  then have "(lower (username r) \<in> system_users) = (?y \<in> system_users)"
    using take_15_system_users [OF nb] by simp
  then have first: "is_system_process r
            \<longleftrightarrow> os_pid p \<in> {0, 1, 2} \<or> ?y \<in> system_users"
    using pidr by (auto simp: is_system_process_def Let_def)
  have second: "is_system_process q
          \<and> (\<forall>os g m. last_mem_info g = Some m \<longrightarrow>
                (\<exists>ps. pending_render_processes (apply_search_filter os g) = Some ps
                  \<and> (hide_system_checkbox g \<longrightarrow> q \<notin> set ps)
                  \<and> (\<not> hide_system_checkbox g \<longrightarrow>
                       (q \<in> set ps \<longleftrightarrow>
                          q \<in> set (cached_processes g)
                        \<and> \<not> (hide_inaccessible_checkbox g \<and> is_inaccessible_process os q)
                        \<and> (lower (strip (search_input g)) = []
                            \<or> is_substring (lower (strip (search_input g))) (lower (name q)))))))"
    if q: "username q = ''root'' \<and> pid q = 500" for q
  proof -
    have "lower ''root'' = ''root''"
      by (simp add: lower_def lower_char_def)
    then have sys: "is_system_process q"
      using q by (simp add: is_system_process_def system_users_def)
    have "\<exists>ps. pending_render_processes (apply_search_filter os g) = Some ps
                  \<and> (hide_system_checkbox g \<longrightarrow> q \<notin> set ps)
                  \<and> (\<not> hide_system_checkbox g \<longrightarrow>
                       (q \<in> set ps \<longleftrightarrow>
                          q \<in> set (cached_processes g)
                        \<and> \<not> (hide_inaccessible_checkbox g \<and> is_inaccessible_process os q)
                        \<and> (lower (strip (search_input g)) = []
                            \<or> is_substring (lower (strip (search_input g))) (lower (name q)))))"
      if m: "last_mem_info g = Some m" for os g m
      using m sys
      by (auto simp: apply_search_filter_def hide_system_stage_def hide_inaccessible_stage_def
          search_stage_def Let_def)
    with sys show ?thesis by blast
  qed
  from first second show ?thesis by blast
qed

text \<open>
  The job of \<open>CORP\Root\<close> is stored under \<open>Root\<close> and is a system process. The cached
  job of \<open>root\<close> is dropped when the system box is checked and kept when it is not.
\<close>

theorem is_system_process_of_sampled_witness:
  "fst (sample_process (data_fetcher_init 8589934592) True
          (process_cache (data_fetcher_init 8589934592)) domain_root_process)
     = Appended domain_root_record
   \<and> os_info domain_root_process
       = Info (Some ''cron'') (Some 3145728) (Some (''CORP'' @ [CHR 0x5C] @ ''Root''))
   \<and> is_system_process domain_root_record
   \<and> username root_record = ''root'' \<and> pid root_record = 500
   \<and> is_system_process root_record
   \<and> last_mem_info (example_gui True False []) = Some example_mem_info
   \<and> pending_render_processes (apply_search_filter example_files (example_gui True False []))
       = Some [user_record 2001 ''chrome.exe'' 300, user_record 2002 ''explorer.exe'' 120,
               user_record 2003 ''Chrome Helper'' 80]
   \<and> root_record \<in> set (cached_processes (example_gui False False []))
   \<and> pending_render_processes (apply_search_filter example_files (example_gui False False []))
       = Some (cached_processes (example_gui False False []))"
proof -
  let ?s = "data_fetcher_init 8589934592"
  have e: "fst (sample_process ?s True (process_cache ?s) domain_root_process)
             = Appended domain_root_record"
    by (simp add: sampler_eval domain_root_process_def domain_root_record_def)
  then have sp: "sample_process ?s True (process_cache ?s) domain_root_process
             = (Appended domain_root_record,
                snd (sample_process ?s True (process_cache ?s) domain_root_process))"
    by (metis prod.collapse)
  have i: "os_info domain_root_process
             = Info (Some ''cron'') (Some 3145728) (Some (''CORP'' @ [CHR 0x5C] @ ''Root''))"
    by (simp add: domain_root_process_def)
  have low: "lower (strip_domain (username_or_unknown (Some (''CORP'' @ [CHR 0x5C] @ ''Root''))))
               \<in> system_users"
    by (simp add: strip_domain_def username_or_unknown_def lower_def lower_char_def
        system_users_def)
  have q: "username root_record = ''root'' \<and> pid root_record = 500"
    by (simp add: root_record_def)
  have m: "last_mem_info (example_gui True False []) = Some example_mem_info"
    by (simp add: example_gui_def)
  have h: "pending_render_processes (apply_search_filter example_files (example_gui True False []))
       = Some [user_record 2001 ''chrome.exe'' 300, user_record 2002 ''explorer.exe'' 120,
               user_record 2003 ''Chrome Helper'' 80]"
    by (simp add: gui_eval)
  have c: "root_record \<in> set (cached_processes (example_gui False False []))"
    by (simp add: example_gui_def example_processes_def)
  have u: "pending_render_processes (apply_search_filter example_files (example_gui False False []))
       = Some (cached_processes (example_gui False False []))"
    by (simp add: gui_eval)
  from is_system_process_of_sampled [OF sp i] low q
  have "is_system_process domain_root_record \<and> is_system_process root_record"
    by blast
  with e i q m h c u show ?thesis by simp
qed

end
